theory Spec2Isabelle
  imports Complex_Main
begin

section \<open>Python values and errors\<close>

text \<open>
  The exceptions that the modelled code can raise. \<open>InvalidMoveError\<close> is the
  exception of the chess library's move parser; \<open>ValueError\<close> is what
  \<open>move_piece\<close> raises for an illegal move and what \<open>str.index\<close> raises.
\<close>

datatype error = IndexError | KeyError | ValueError | InvalidMoveError

text \<open>Sequencing of fallible computations: the first exception propagates.\<close>

definition and_then :: "error + 'a \<Rightarrow> ('a \<Rightarrow> error + 'b) \<Rightarrow> error + 'b" where
  "and_then r f = (case r of Inl e \<Rightarrow> Inl e | Inr x \<Rightarrow> f x)"

text \<open>
  Python subscription \<open>xs[i]\<close> of a list or a string: a negative index counts from
  the end, and an index outside \<open>[-len, len)\<close> raises IndexError.
\<close>

definition py_getitem :: "'a list \<Rightarrow> int \<Rightarrow> error + 'a" where
  "py_getitem xs i =
     (if 0 \<le> i \<and> i < int (length xs) then Inr (xs ! nat i)
      else if - int (length xs) \<le> i \<and> i < 0 then Inr (xs ! nat (int (length xs) + i))
      else Inl IndexError)"

text \<open>\<open>d.get(k, default)\<close> on a dictionary.\<close>

definition dict_get :: "('k \<rightharpoonup> 'v) \<Rightarrow> 'k \<Rightarrow> 'v \<Rightarrow> 'v" where
  "dict_get d k dflt = (case d k of None \<Rightarrow> dflt | Some v \<Rightarrow> v)"

text \<open>\<open>xs.index(x)\<close>: the first position of \<open>x\<close>, \<open>None\<close> where Python raises ValueError.\<close>

fun index_of :: "'a \<Rightarrow> 'a list \<Rightarrow> nat option" where
  "index_of x [] = None"
| "index_of x (y # ys) =
     (if x = y then Some 0 else (case index_of x ys of None \<Rightarrow> None | Some i \<Rightarrow> Some (Suc i)))"

section \<open>The chess library's moves\<close>

text \<open>
  The parts of the external chess library that the codec touches: piece types, colours
  (\<open>chess.WHITE = True\<close>, \<open>chess.BLACK = False\<close>), squares \<open>0..63\<close>
  (\<open>square = 8 * rank + file\<close>), the \<open>Move\<close> class with \<open>uci()\<close> and
  \<open>from_uci\<close>. Drop moves (the Crazyhouse variant) are left out: neither standard
  chess nor Chess960 has them, and the decoder never builds one.
\<close>

datatype piece_type = PAWN | KNIGHT | BISHOP | ROOK | QUEEN | KING

definition WHITE :: bool where "WHITE = True"
definition BLACK :: bool where "BLACK = False"

record chess_move =
  from_square :: nat
  to_square :: nat
  promotion :: "piece_type option"

definition Move :: "nat \<Rightarrow> nat \<Rightarrow> piece_type option \<Rightarrow> chess_move" where
  "Move f t p = \<lparr>from_square = f, to_square = t, promotion = p\<rparr>"

definition FILE_NAMES :: string where "FILE_NAMES = ''abcdefgh''"
definition RANK_NAMES :: string where "RANK_NAMES = ''12345678''"

text \<open>\<open>SQUARE_NAMES = [f + r for r in RANK_NAMES for f in FILE_NAMES]\<close>\<close>

definition SQUARE_NAMES :: "string list" where
  "SQUARE_NAMES = concat (map (\<lambda>r. map (\<lambda>f. [f, r]) FILE_NAMES) RANK_NAMES)"

fun piece_symbol :: "piece_type \<Rightarrow> char" where
  "piece_symbol PAWN = CHR ''p''"
| "piece_symbol KNIGHT = CHR ''n''"
| "piece_symbol BISHOP = CHR ''b''"
| "piece_symbol ROOK = CHR ''r''"
| "piece_symbol QUEEN = CHR ''q''"
| "piece_symbol KING = CHR ''k''"

text \<open>\<open>PIECE_SYMBOLS.index(c)\<close>, read back as the piece type.\<close>

definition symbol_piece :: "char \<Rightarrow> piece_type option" where
  "symbol_piece c =
     (if c = CHR ''p'' then Some PAWN else if c = CHR ''n'' then Some KNIGHT
      else if c = CHR ''b'' then Some BISHOP else if c = CHR ''r'' then Some ROOK
      else if c = CHR ''q'' then Some QUEEN else if c = CHR ''k'' then Some KING
      else None)"

text \<open>
  \<open>Move.uci()\<close>: the two square names and the promotion letter; the null move
  (both squares 0, no promotion) is \<open>0000\<close>. A square outside the board has no name.
\<close>

definition uci :: "chess_move \<Rightarrow> error + string" where
  "uci m =
     (case promotion m of
        Some p \<Rightarrow>
          and_then (py_getitem SQUARE_NAMES (int (from_square m))) (\<lambda>a.
          and_then (py_getitem SQUARE_NAMES (int (to_square m))) (\<lambda>b.
          Inr (a @ b @ [piece_symbol p])))
      | None \<Rightarrow>
          if from_square m \<noteq> 0 \<or> to_square m \<noteq> 0 then
            and_then (py_getitem SQUARE_NAMES (int (from_square m))) (\<lambda>a.
            and_then (py_getitem SQUARE_NAMES (int (to_square m))) (\<lambda>b.
            Inr (a @ b)))
          else Inr ''0000'')"

text \<open>
  \<open>Move.from_uci\<close> on a string of four or five characters: two square names and an
  optional piece letter. An unknown square or letter, equal squares, or another length
  raise InvalidMoveError.
\<close>

definition from_uci :: "string \<Rightarrow> error + chess_move" where
  "from_uci s =
     (if s = ''0000'' then Inr (Move 0 0 None)
      else if 4 \<le> length s \<and> length s \<le> 5 then
        (case (index_of (take 2 s) SQUARE_NAMES, index_of (take 2 (drop 2 s)) SQUARE_NAMES) of
           (Some f, Some t) \<Rightarrow>
             (if length s = 5 then
                (case symbol_piece (s ! 4) of
                   None \<Rightarrow> Inl InvalidMoveError
                 | Some p \<Rightarrow> if f = t then Inl InvalidMoveError else Inr (Move f t (Some p)))
              else if f = t then Inl InvalidMoveError else Inr (Move f t None))
         | _ \<Rightarrow> Inl InvalidMoveError)
      else Inl InvalidMoveError)"

section \<open>The action codec\<close>

text \<open>
  The action vector is a one-dimensional tensor of length \<open>8*8*73 = 4672\<close> made by
  \<open>torch.zeros\<close>, so its entries are single-precision floats. A float32 value is a
  finite number, an infinity with its sign (\<open>True\<close> for \<open>+inf\<close>) or NaN. The finite
  values are the numbers \<open>m * 2^e\<close> with \<open>|m| < 2^24\<close> and \<open>-149 \<le> e \<le> 104\<close>;
  the two zeros compare equal and are one value here.
\<close>

datatype float32 = Finite real | Infinity bool | NaN

definition max_float32 :: real where
  "max_float32 = (2 ^ 24 - 1) * 2 ^ 104"

definition float32_exact :: "real \<Rightarrow> bool" where
  "float32_exact x =
     (\<exists>m e :: int. \<bar>m\<bar> < 2 ^ 24 \<and> - 149 \<le> e \<and> e \<le> 104 \<and> x = of_int m * 2 powr of_int e)"

text \<open>Rounding to the nearest integer, a tie going to the even one.\<close>

definition round_half_even :: "real \<Rightarrow> int" where
  "round_half_even q =
     (let f = \<lfloor>q\<rfloor>; d = q - of_int f
      in if d < 1 / 2 then f else if 1 / 2 < d then f + 1 else if even f then f else f + 1)"

text \<open>
  The spacing of the float32 values around \<open>x\<close>: 24 significant bits, and the fixed
  spacing \<open>2^-149\<close> of the subnormal range below \<open>2^-126\<close>.
\<close>

definition ulp :: "real \<Rightarrow> real" where
  "ulp x = 2 powr of_int (max \<lfloor>log 2 \<bar>x\<bar>\<rfloor> (- 126) - 23)"

text \<open>
  The conversion of a finite Python float to float32, which is what storing into the
  tensor does, and the result of every float32 operation: round to nearest, ties to
  even; a result beyond the largest finite value is an infinity.
\<close>

definition round32 :: "real \<Rightarrow> float32" where
  "round32 x =
     (if x = 0 then Finite 0
      else let r = of_int (round_half_even (x / ulp x)) * ulp x
           in if max_float32 < \<bar>r\<bar> then Infinity (0 < x) else Finite r)"

text \<open>Float32 addition, as \<open>+=\<close> on the tensors does it entry by entry.\<close>

fun fadd :: "float32 \<Rightarrow> float32 \<Rightarrow> float32" where
  "fadd (Finite a) (Finite b) = round32 (a + b)"
| "fadd (Infinity s) (Infinity s') = (if s = s' then Infinity s else NaN)"
| "fadd (Infinity s) (Finite b) = Infinity s"
| "fadd (Finite a) (Infinity s) = Infinity s"
| "fadd NaN y = NaN"
| "fadd x NaN = NaN"

definition zeros :: "nat \<Rightarrow> float32 list" where
  "zeros n = replicate n (Finite 0)"

text \<open>
  \<open>t[i] = v\<close> on a one-dimensional float32 tensor, with Python's index rules: the
  Python float \<open>v\<close> is converted to float32.
\<close>

definition tensor_setitem :: "float32 list \<Rightarrow> int \<Rightarrow> real \<Rightarrow> error + float32 list" where
  "tensor_setitem t i v =
     (if 0 \<le> i \<and> i < int (length t) then Inr (t[nat i := round32 v])
      else if - int (length t) \<le> i \<and> i < 0
           then Inr (t[nat (int (length t) + i) := round32 v])
      else Inl IndexError)"

text \<open>
  \<open>t.nonzero()\<close>: the indices of the entries that differ from zero, ascending;
  infinities and NaN differ from zero.
\<close>

definition nonzero :: "float32 list \<Rightarrow> nat list" where
  "nonzero t = filter (\<lambda>i. t ! i \<noteq> Finite 0) [0..<length t]"

subsection \<open>actionToTensor\<close>

text \<open>The two dictionaries of \<open>actionToTensor\<close>; a missing key raises KeyError.\<close>

definition actionToTensor_dir :: "int \<times> int \<Rightarrow> int option" where
  "actionToTensor_dir = map_of
     [((0, -1), 0), ((1, -1), 1), ((1, 0), 2), ((1, 1), 3),
      ((0, 1), 4), ((-1, 1), 5), ((-1, 0), 6), ((-1, -1), 7)]"

definition actionToTensor_knight_moves :: "int \<times> int \<Rightarrow> int option" where
  "actionToTensor_knight_moves = map_of
     [((1, -2), 0), ((2, -1), 1), ((2, 1), 2), ((1, 2), 3),
      ((-1, 2), 4), ((-2, 1), 5), ((-2, -1), 6), ((-1, -2), 7)]"

definition check_polarity :: "int \<Rightarrow> int" where
  "check_polarity val = (if val > 0 then 1 else if val < 0 then -1 else 0)"

text \<open>
  The source square and the target square in the mover's frame:
  \<open>(row, col, toRow, toCol)\<close>, as the two branches on \<open>color\<close> compute them.
\<close>

definition mover_frame :: "bool \<Rightarrow> chess_move \<Rightarrow> int \<times> int \<times> int \<times> int" where
  "mover_frame color m =
     (let from_sq = int (from_square m); to_sq = int (to_square m)
      in if color = WHITE
         then (7 - from_sq div 8, from_sq mod 8, 7 - to_sq div 8, to_sq mod 8)
         else (from_sq div 8, 7 - from_sq mod 8, to_sq div 8, 7 - to_sq mod 8))"

text \<open>
  The test \<open>abs(toRow-row)/abs(toCol-col)==1\<close> is Python's true division; \<open>or\<close>
  evaluates it only when \<open>toCol \<noteq> col\<close>, so it never divides by zero.
\<close>

definition actionToTensor :: "chess_move \<Rightarrow> bool \<Rightarrow> real \<Rightarrow> error + float32 list" where
  "actionToTensor m color prob =
     (let moveTensor = zeros (8 * 8 * 73);
          (row, col, toRow, toCol) = mover_frame color m
      in if toCol = col \<or> toRow = row
            \<or> real_of_int \<bar>toRow - row\<bar> / real_of_int \<bar>toCol - col\<bar> = 1
         then
           and_then (uci m) (\<lambda>u.
           and_then (py_getitem u (-1)) (\<lambda>c.
             if c \<in> set ''nbr'' then
               (case index_of c ''nbr'' of
                  None \<Rightarrow> Inl ValueError
                | Some k \<Rightarrow>
                    let i = int k * 3;
                        i = (if toCol > col then i + 1 else if toCol < col then i + 2 else i)
                    in tensor_setitem moveTensor ((64 + i) * 8 * 8 + row * 8 + col) prob)
             else
               (let squares = max \<bar>toRow - row\<bar> \<bar>toCol - col\<bar>;
                    direction = (check_polarity (toCol - col), check_polarity (toRow - row))
                in case actionToTensor_dir direction of
                     None \<Rightarrow> Inl KeyError
                   | Some d \<Rightarrow>
                       tensor_setitem moveTensor ((d * 7 + (squares - 1)) * 64 + row * 8 + col) prob)))
         else
           (case actionToTensor_knight_moves (toCol - col, toRow - row) of
              None \<Rightarrow> Inl KeyError
            | Some k \<Rightarrow> tensor_setitem moveTensor ((56 + k) * 64 + row * 8 + col) prob))"

subsection \<open>actionsToTensor\<close>

text \<open>
  \<open>valid_moves\<close> is a list of moves (every weight is 1) or a dictionary from moves to
  weights (finite Python floats); a dictionary is given as its items in iteration order, so its keys are
  distinct. \<open>queen_promotion\<close> is a dictionary from UCI strings to \<open>True\<close>.
\<close>

datatype valid_moves = MoveList "chess_move list" | MoveDict "(chess_move \<times> real) list"

definition weighted :: "valid_moves \<Rightarrow> (chess_move \<times> real) list" where
  "weighted vm = (case vm of MoveList ms \<Rightarrow> map (\<lambda>m. (m, 1)) ms | MoveDict kvs \<Rightarrow> kvs)"

fun actionsToTensor_loop ::
  "bool \<Rightarrow> (chess_move \<times> real) list \<Rightarrow> float32 list \<times> (string \<rightharpoonup> bool)
     \<Rightarrow> error + (float32 list \<times> (string \<rightharpoonup> bool))" where
  "actionsToTensor_loop color [] acc = Inr acc"
| "actionsToTensor_loop color ((valid_move, prob) # rest) (actionTensor, queen_promotion) =
     and_then
       (if promotion valid_move = Some QUEEN
        then and_then (uci valid_move) (\<lambda>u. Inr (queen_promotion(u \<mapsto> True)))
        else Inr queen_promotion) (\<lambda>queen_promotion'.
     and_then (actionToTensor valid_move color prob) (\<lambda>moveTensor.
       actionsToTensor_loop color rest
         (map2 fadd actionTensor moveTensor, queen_promotion')))"

definition actionsToTensor ::
  "valid_moves \<Rightarrow> bool \<Rightarrow> error + (float32 list \<times> (string \<rightharpoonup> bool))" where
  "actionsToTensor vm color =
     actionsToTensor_loop color (weighted vm) (zeros (8 * 8 * 73), Map.empty)"

subsection \<open>tensorToAction\<close>

definition lettering :: "bool \<Rightarrow> string" where
  "lettering color = (if color = WHITE then ''abcdefgh'' else rev ''abcdefgh'')"

definition numbering :: "bool \<Rightarrow> string" where
  "numbering color = (if color = WHITE then rev ''12345678'' else ''12345678'')"

definition tensorToAction_dir :: "(int \<times> int) list" where
  "tensorToAction_dir =
     [(0, -1), (1, -1), (1, 0), (1, 1), (0, 1), (-1, 1), (-1, 0), (-1, -1)]"

definition tensorToAction_knight_moves :: "(int \<times> int) list" where
  "tensorToAction_knight_moves =
     [(1, -2), (2, -1), (2, 1), (1, 2), (-1, 2), (-2, 1), (-2, -1), (-1, -2)]"

text \<open>
  The four characters \<open>lettering[col] numbering[row] lettering[toCol] numbering[toRow]\<close>,
  subscripted left to right as the source writes them.
\<close>

definition coordinates :: "bool \<Rightarrow> int \<Rightarrow> int \<Rightarrow> int \<Rightarrow> int \<Rightarrow> error + string" where
  "coordinates color row col toRow toCol =
     and_then (py_getitem (lettering color) col) (\<lambda>a.
     and_then (py_getitem (numbering color) row) (\<lambda>b.
     and_then (py_getitem (lettering color) toCol) (\<lambda>c.
     and_then (py_getitem (numbering color) toRow) (\<lambda>d.
     Inr [a, b, c, d]))))"

text \<open>
  The branch on \<open>plane\<close> in the loop body: the target square \<open>(toRow, toCol)\<close> in the
  mover's frame and the promotion suffix.
\<close>

definition tensorToAction_target ::
  "bool \<Rightarrow> (string \<rightharpoonup> bool) \<Rightarrow> int \<Rightarrow> int \<Rightarrow> int \<Rightarrow> error + (int \<times> int \<times> string)" where
  "tensorToAction_target color queen_promotion plane row col =
     (if plane < 56 then
        (let direction = plane div 7; squares = 1 + plane mod 7
         in and_then (py_getitem tensorToAction_dir direction) (\<lambda>d.
            let toCol = col + fst d * squares; toRow = row + snd d * squares
            in and_then (coordinates color row col toRow toCol) (\<lambda>s.
               Inr (toRow, toCol,
                    if dict_get queen_promotion (s @ ''q'') False then ''q'' else ''''))))
      else if plane < 64 then
        (let direction = plane - 56
         in and_then (py_getitem tensorToAction_knight_moves direction) (\<lambda>d.
            Inr (row + snd d, col + fst d, '''')))
      else
        (let plane' = plane - 64; toRow = row - 1;
             toCol = (if plane' mod 3 = 1 then col + 1
                      else if plane' mod 3 = 2 then col - 1 else col)
         in and_then (py_getitem ''nbr'' (plane' div 3)) (\<lambda>p.
            Inr (toRow, toCol, [p]))))"

text \<open>The body of the loop over the nonzero indices: one index, one move.\<close>

definition tensorToAction_move :: "bool \<Rightarrow> (string \<rightharpoonup> bool) \<Rightarrow> nat \<Rightarrow> error + chess_move" where
  "tensorToAction_move color queen_promotion idx =
     (let plane = int idx div 64; mv = int idx mod 64; row = mv div 8; col = mv mod 8
      in and_then (tensorToAction_target color queen_promotion plane row col)
           (\<lambda>(toRow, toCol, promo).
         and_then (coordinates color row col toRow toCol) (\<lambda>s.
         from_uci (s @ promo))))"

fun tensorToAction_loop ::
  "bool \<Rightarrow> (string \<rightharpoonup> bool) \<Rightarrow> nat list \<Rightarrow> error + chess_move list" where
  "tensorToAction_loop color queen_promotion [] = Inr []"
| "tensorToAction_loop color queen_promotion (idx # rest) =
     and_then (tensorToAction_move color queen_promotion idx) (\<lambda>mv.
     and_then (tensorToAction_loop color queen_promotion rest) (\<lambda>mvs.
     Inr (mv # mvs)))"

definition tensorToAction ::
  "float32 list \<Rightarrow> bool \<Rightarrow> (string \<rightharpoonup> bool) \<Rightarrow> error + chess_move list" where
  "tensorToAction moves color queen_promotion =
     tensorToAction_loop color queen_promotion (nonzero moves)"

section \<open>The board encoder\<close>

text \<open>
  The board tensors have dtype \<open>torch.bool\<close>: a tensor of shape \<open>[n, 8, 8]\<close> is a list
  of \<open>n\<close> planes, a plane a list of 8 rows, a row a list of 8 booleans.
  \<open>torch.cat(..., 0)\<close> is list append, and a slice \<open>t[a:b]\<close> along the first
  dimension is \<open>slice a b t\<close>.
\<close>

type_synonym tensor3 = "bool list list list"

definition zeros3 :: "nat \<Rightarrow> tensor3" where
  "zeros3 n = replicate n (replicate 8 (replicate 8 False))"

definition ones3 :: "nat \<Rightarrow> tensor3" where
  "ones3 n = replicate n (replicate 8 (replicate 8 True))"

text \<open>
  \<open>torch.tensor([v], dtype=torch.bool).reshape(1, 1, 1).expand(1, 8, 8)\<close>: the
  conversion of the integer \<open>v\<close> to \<open>torch.bool\<close> keeps only whether it is nonzero.
\<close>

definition bool_plane :: "nat \<Rightarrow> tensor3" where
  "bool_plane v = [replicate 8 (replicate 8 (v \<noteq> 0))]"

definition slice :: "nat \<Rightarrow> nat \<Rightarrow> 'a list \<Rightarrow> 'a list" where
  "slice a b xs = take (b - a) (drop a xs)"

text \<open>\<open>representation[channel, row, col] = v\<close>; the encoder only writes inside the shape.\<close>

definition set3 :: "tensor3 \<Rightarrow> nat \<Rightarrow> nat \<Rightarrow> nat \<Rightarrow> bool \<Rightarrow> tensor3" where
  "set3 t channel row col v = t[channel := (t ! channel)[row := (t ! channel ! row)[col := v]]]"

text \<open>
  \<open>torch.flip(t, dims)\<close> reverses a three-dimensional tensor along each dimension in
  \<open>dims\<close>; the encoder calls it with \<open>[1]\<close> and with \<open>[2]\<close>.
\<close>

definition torch_flip :: "tensor3 \<Rightarrow> nat list \<Rightarrow> tensor3" where
  "torch_flip t dims =
     (let t0 = (if 0 \<in> set dims then rev t else t);
          t1 = (if 1 \<in> set dims then map rev t0 else t0)
      in if 2 \<in> set dims then map (map rev) t1 else t1)"

text \<open>
  The rules engine is the external chess library; the encoder is modelled over any
  engine, given by the operations of \<open>chess.Board\<close> that the encoder calls.
  \<open>is_legal b m\<close> is the test \<open>m in b.legal_moves\<close>, \<open>push\<close> returns the board after
  the move, and \<open>from_chess960_pos\<close> takes the number drawn by \<open>random.randint(0, 959)\<close>.
\<close>

record 'b rules_engine =
  Board :: 'b
  from_chess960_pos :: "nat \<Rightarrow> 'b"
  is_legal :: "'b \<Rightarrow> chess_move \<Rightarrow> bool"
  push :: "'b \<Rightarrow> chess_move \<Rightarrow> 'b"
  piece_at :: "'b \<Rightarrow> nat \<Rightarrow> (piece_type \<times> bool) option"
  is_repetition :: "'b \<Rightarrow> nat \<Rightarrow> bool"
  move_stack :: "'b \<Rightarrow> chess_move list"
  has_kingside_castling_rights :: "'b \<Rightarrow> bool \<Rightarrow> bool"
  has_queenside_castling_rights :: "'b \<Rightarrow> bool \<Rightarrow> bool"
  halfmove_clock :: "'b \<Rightarrow> nat"
  turn :: "'b \<Rightarrow> bool"

record 'b ChessTensor =
  board :: 'b
  representation :: tensor3
  black_representation :: tensor3

definition M :: nat where "M = 14"
definition T :: nat where "T = 8"
definition L :: nat where "L = 7"

fun order :: "piece_type \<Rightarrow> nat" where
  "order PAWN = 0"
| "order KNIGHT = 1"
| "order BISHOP = 2"
| "order ROOK = 3"
| "order QUEEN = 4"
| "order KING = 5"

definition board_to_tensor :: "'b rules_engine \<Rightarrow> 'b \<Rightarrow> tensor3" where
  "board_to_tensor eng b =
     fold (\<lambda>square representation.
             case piece_at eng b square of
               None \<Rightarrow> representation
             | Some (pt, color) \<Rightarrow>
                 (let channel = order pt;
                      channel = (if color = BLACK then channel + 6 else channel);
                      row = square div 8; col = square mod 8
                  in set3 representation channel row col True))
          [0..<64] (zeros3 12)"

definition start_board :: "'b rules_engine \<Rightarrow> bool \<Rightarrow> nat \<Rightarrow> 'b ChessTensor" where
  "start_board eng chess960 rnd =
     (let b = (if chess960 then from_chess960_pos eng rnd else Board eng);
          board_tensor = board_to_tensor eng b;
          repetition_tensor = zeros3 2;
          current_representation = board_tensor @ repetition_tensor;
          white = ones3 1;
          black = zeros3 1;
          total_moves = zeros3 1;
          castling = ones3 4;
          no_progress = zeros3 1
      in \<lparr>board = b,
          representation =
            current_representation @ zeros3 (M * (T - 1)) @ white @ total_moves
              @ castling @ no_progress,
          black_representation =
            slice 6 12 current_representation @ take 6 current_representation
              @ repetition_tensor @ zeros3 (M * (T - 1)) @ black @ total_moves
              @ castling @ no_progress\<rparr>)"

text \<open>
  \<open>move_piece\<close> returns what the call raised, if anything, and the encoder's state
  after the call. \<open>t[:-self.M - self.L]\<close> drops the last 21 planes.
\<close>

definition move_piece ::
  "'b rules_engine \<Rightarrow> chess_move \<Rightarrow> 'b ChessTensor \<Rightarrow> (error + unit) \<times> 'b ChessTensor" where
  "move_piece eng mv st =
     (if \<not> is_legal eng (board st) mv then (Inl ValueError, st)
      else
        (let b = push eng (board st) mv;
             board_tensor = board_to_tensor eng b;
             repetition_1 = is_repetition eng b 2;
             repetition_2 = is_repetition eng b 3;
             repetition_1_tensor = (if repetition_1 then ones3 1 else zeros3 1);
             repetition_2_tensor = (if repetition_2 then ones3 1 else zeros3 1);
             current_tensor = board_tensor @ repetition_1_tensor @ repetition_2_tensor;
             white = ones3 1;
             black = zeros3 1;
             total_moves = bool_plane (length (move_stack eng b));
             white_king_castling =
               (if has_kingside_castling_rights eng b WHITE then ones3 1 else zeros3 1);
             white_queen_castling =
               (if has_queenside_castling_rights eng b WHITE then ones3 1 else zeros3 1);
             black_king_castling =
               (if has_kingside_castling_rights eng b BLACK then ones3 1 else zeros3 1);
             black_queen_castling =
               (if has_queenside_castling_rights eng b BLACK then ones3 1 else zeros3 1);
             no_progress = bool_plane (halfmove_clock eng b);
             L_tensor = white @ total_moves @ white_king_castling @ white_queen_castling
               @ black_king_castling @ black_queen_castling @ no_progress;
             L_tensor_black = black @ total_moves @ black_king_castling
               @ black_queen_castling @ white_king_castling @ white_queen_castling
               @ no_progress;
             rep = take (length (representation st) - (M + L)) (representation st);
             black_rep =
               take (length (black_representation st) - (M + L)) (black_representation st)
         in (Inr (),
             \<lparr>board = b,
              representation = current_tensor @ rep @ L_tensor,
              black_representation =
                slice 6 12 current_tensor @ take 6 current_tensor @ drop 12 current_tensor
                  @ black_rep @ L_tensor_black\<rparr>)))"

definition get_representation :: "'b rules_engine \<Rightarrow> 'b ChessTensor \<Rightarrow> tensor3" where
  "get_representation eng st =
     (if turn eng (board st) then torch_flip (representation st) [1]
      else torch_flip (black_representation st) [2])"

text \<open>A game: the moves are applied in turn, and the first exception ends the run.\<close>

fun play ::
  "'b rules_engine \<Rightarrow> 'b ChessTensor \<Rightarrow> chess_move list \<Rightarrow> (error + unit) \<times> 'b ChessTensor" where
  "play eng st [] = (Inr (), st)"
| "play eng st (mv # mvs) =
     (case move_piece eng mv st of
        (Inl e, st') \<Rightarrow> (Inl e, st')
      | (Inr u, st') \<Rightarrow> play eng st' mvs)"

section \<open>Shapes of moves and of tensors\<close>

text \<open>
  The rules of chess are the engine's business. What the codec needs of a legal move is
  its geometry: both squares on the board, a displacement along a rank, a file or a
  diagonal, or a knight's jump.
\<close>

definition on_board :: "chess_move \<Rightarrow> bool" where
  "on_board m = (from_square m < 64 \<and> to_square m < 64)"

definition file_step :: "chess_move \<Rightarrow> int" where
  "file_step m = int (to_square m mod 8) - int (from_square m mod 8)"

definition rank_step :: "chess_move \<Rightarrow> int" where
  "rank_step m = int (to_square m div 8) - int (from_square m div 8)"

definition queen_line :: "chess_move \<Rightarrow> bool" where
  "queen_line m =
     (from_square m \<noteq> to_square m \<and>
      (file_step m = 0 \<or> rank_step m = 0 \<or> \<bar>file_step m\<bar> = \<bar>rank_step m\<bar>))"

definition knight_jump :: "chess_move \<Rightarrow> bool" where
  "knight_jump m =
     ((\<bar>file_step m\<bar> = 1 \<and> \<bar>rank_step m\<bar> = 2) \<or> (\<bar>file_step m\<bar> = 2 \<and> \<bar>rank_step m\<bar> = 1))"

definition valid_displacement :: "chess_move \<Rightarrow> bool" where
  "valid_displacement m = (on_board m \<and> (queen_line m \<or> knight_jump m))"

text \<open>
  A move as the rules allow it for the mover \<open>color\<close>: a move without promotion is a
  queen-line step or a knight's jump; a promotion is to knight, bishop, rook or queen,
  one rank forward for the mover and at most one file aside.
\<close>

definition legal_shape :: "bool \<Rightarrow> chess_move \<Rightarrow> bool" where
  "legal_shape color m =
     (on_board m \<and>
      (case promotion m of
         None \<Rightarrow> queen_line m \<or> knight_jump m
       | Some p \<Rightarrow>
           (p = KNIGHT \<or> p = BISHOP \<or> p = ROOK \<or> p = QUEEN) \<and> \<bar>file_step m\<bar> \<le> 1 \<and>
           rank_step m = (if color = WHITE then 1 else -1)))"

text \<open>
  A pawn that reaches the last rank must promote: the legal moves of one position never
  hold a queen promotion together with the same step without promotion.
\<close>

definition promotion_forced :: "chess_move list \<Rightarrow> bool" where
  "promotion_forced ms =
     (\<forall>m \<in> set ms. \<forall>m' \<in> set ms.
        promotion m = Some QUEEN \<and> from_square m' = from_square m \<and> to_square m' = to_square m
          \<longrightarrow> promotion m' \<noteq> None)"

definition legal_move_list :: "bool \<Rightarrow> chess_move list \<Rightarrow> bool" where
  "legal_move_list color ms = ((\<forall>m \<in> set ms. legal_shape color m) \<and> promotion_forced ms)"

definition moves_of :: "valid_moves \<Rightarrow> chess_move list" where
  "moves_of vm = map fst (weighted vm)"

definition shape3 :: "nat \<Rightarrow> tensor3 \<Rightarrow> bool" where
  "shape3 n t = (length t = n \<and> (\<forall>p \<in> set t. length p = 8 \<and> (\<forall>r \<in> set p. length r = 8)))"

definition zero_plane :: "bool list list" where
  "zero_plane = replicate 8 (replicate 8 False)"

text \<open>
  After \<open>k\<close> plies the history frames \<open>k + 1 .. T - 1\<close>, the planes
  \<open>M * (k + 1) .. M * T - 1\<close>, are still the zero planes of \<open>start_board\<close>.
\<close>

definition unplayed_frames_zero :: "nat \<Rightarrow> tensor3 \<Rightarrow> bool" where
  "unplayed_frames_zero k t = (\<forall>ch. M * (k + 1) \<le> ch \<and> ch < M * T \<longrightarrow> t ! ch = zero_plane)"

definition encoder_invariant :: "nat \<Rightarrow> 'b ChessTensor \<Rightarrow> bool" where
  "encoder_invariant k st =
     (shape3 119 (representation st) \<and> shape3 119 (black_representation st) \<and>
      unplayed_frames_zero k (representation st) \<and>
      unplayed_frames_zero k (black_representation st))"

text \<open>
  The destination square that the loop body of \<open>tensorToAction\<close> reconstructs for an
  index, in the mover's frame: \<open>(toRow, toCol)\<close>.
\<close>

definition reconstructed_destination :: "nat \<Rightarrow> int \<times> int" where
  "reconstructed_destination idx =
     (let plane = int idx div 64; mv = int idx mod 64; row = mv div 8; col = mv mod 8
      in if plane < 56 then
           (row + snd (tensorToAction_dir ! nat (plane div 7)) * (1 + plane mod 7),
            col + fst (tensorToAction_dir ! nat (plane div 7)) * (1 + plane mod 7))
         else if plane < 64 then
           (row + snd (tensorToAction_knight_moves ! nat (plane - 56)),
            col + fst (tensorToAction_knight_moves ! nat (plane - 56)))
         else
           (row - 1,
            if (plane - 64) mod 3 = 1 then col + 1
            else if (plane - 64) mod 3 = 2 then col - 1 else col))"

text \<open>The square of the board that \<open>(row, col)\<close> of the mover's frame names.\<close>

definition frame_square :: "bool \<Rightarrow> int \<Rightarrow> int \<Rightarrow> nat" where
  "frame_square color row col =
     (if color = WHITE then nat (8 * (7 - row) + col) else nat (8 * row + (7 - col)))"

section \<open>A small rules engine for concrete runs\<close>

text \<open>
  An engine to run the encoder on: the standard starting position, in which only the
  knights move. It keeps the placement of the pieces, the moves played, the half-move
  clock and the earlier placements. It does not look at checks.
\<close>

record position =
  placement :: "(piece_type \<times> bool) option list"
  played :: "chess_move list"
  clock :: nat
  earlier :: "(piece_type \<times> bool) option list list"

definition back_rank :: "piece_type list" where
  "back_rank = [ROOK, KNIGHT, BISHOP, QUEEN, KING, BISHOP, KNIGHT, ROOK]"

definition start_position :: position where
  "start_position =
     \<lparr>placement =
        map (\<lambda>p. Some (p, True)) back_rank @ replicate 8 (Some (PAWN, True))
          @ replicate 32 None
          @ replicate 8 (Some (PAWN, False)) @ map (\<lambda>p. Some (p, False)) back_rank,
      played = [], clock = 0, earlier = []\<rparr>"

definition to_move :: "position \<Rightarrow> bool" where
  "to_move p = even (length (played p))"

definition knight_legal :: "position \<Rightarrow> chess_move \<Rightarrow> bool" where
  "knight_legal p m =
     (on_board m \<and> promotion m = None \<and> knight_jump m \<and>
      placement p ! from_square m = Some (KNIGHT, to_move p) \<and>
      (case placement p ! to_square m of None \<Rightarrow> True | Some (pt, c) \<Rightarrow> c \<noteq> to_move p))"

definition knight_push :: "position \<Rightarrow> chess_move \<Rightarrow> position" where
  "knight_push p m =
     \<lparr>placement = (placement p)[to_square m := placement p ! from_square m,
                                 from_square m := None],
      played = played p @ [m],
      clock = (if placement p ! to_square m = None then clock p + 1 else 0),
      earlier = placement p # earlier p\<rparr>"

definition home_rights :: "position \<Rightarrow> nat \<Rightarrow> nat \<Rightarrow> bool \<Rightarrow> bool" where
  "home_rights p king_sq rook_sq c =
     (placement p ! king_sq = Some (KING, c) \<and> placement p ! rook_sq = Some (ROOK, c))"

definition knight_engine :: "position rules_engine" where
  "knight_engine =
     \<lparr>Board = start_position,
      from_chess960_pos = (\<lambda>n. start_position),
      is_legal = knight_legal,
      push = knight_push,
      piece_at = (\<lambda>p sq. if sq < 64 then placement p ! sq else None),
      is_repetition = (\<lambda>p n. n \<le> Suc (length (filter (\<lambda>q. q = placement p) (earlier p)))),
      move_stack = played,
      has_kingside_castling_rights = (\<lambda>p c. if c then home_rights p 4 7 c else home_rights p 60 63 c),
      has_queenside_castling_rights = (\<lambda>p c. if c then home_rights p 4 0 c else home_rights p 60 56 c),
      halfmove_clock = clock,
      turn = to_move\<rparr>"

text \<open>The twenty legal moves of the standard starting position, as UCI squares.\<close>

definition start_moves :: "chess_move list" where
  "start_moves =
     map (\<lambda>f. Move (8 + f) (16 + f) None) [0..<8] @ map (\<lambda>f. Move (8 + f) (24 + f) None) [0..<8]
       @ [Move 1 16 None, Move 1 18 None, Move 6 21 None, Move 6 23 None]"

text \<open>Whether the engine accepts every move of a game, each in the position it is played in.\<close>

fun legal_run :: "'b rules_engine \<Rightarrow> 'b \<Rightarrow> chess_move list \<Rightarrow> bool" where
  "legal_run eng b [] = True"
| "legal_run eng b (mv # mvs) = (is_legal eng b mv \<and> legal_run eng (push eng b mv) mvs)"

text \<open>
  Seven plies in which the king's knights go out and back: Nf3 Nf6 Ng1 Ng8 Nf3 Nf6 Ng1.
  No pawn moves and nothing is captured, so the half-move clock counts every ply.
\<close>

definition knight_shuffle :: "chess_move list" where
  "knight_shuffle =
     [Move 6 21 None, Move 62 45 None, Move 21 6 None, Move 45 62 None,
      Move 6 21 None, Move 62 45 None, Move 21 6 None]"

text \<open>
  Moves of a position with a white pawn on e7 that can promote on e8 or capture on d8 and
  f8, next to a knight move, a castling move and a queen move.
\<close>

definition promotion_moves :: "chess_move list" where
  "promotion_moves =
     [Move 52 60 (Some QUEEN), Move 52 60 (Some KNIGHT), Move 52 59 (Some ROOK),
      Move 52 61 (Some QUEEN), Move 6 21 None, Move 4 6 None, Move 3 43 None]"

section \<open>Float32 values that are stored exactly\<close>

lemma round_half_even_int [simp]: "round_half_even (of_int n) = n"
  by (simp add: round_half_even_def)

lemma round32_0 [simp]: "round32 0 = Finite 0"
  by (simp add: round32_def)

lemma round32_exact:
  assumes "float32_exact x"
  shows "round32 x = Finite x"
proof (cases "x = 0")
  case True
  then show ?thesis by simp
next
  case False
  obtain m e :: int where m: "\<bar>m\<bar> < 2 ^ 24" and e: "- 149 \<le> e" "e \<le> 104"
    and x: "x = of_int m * 2 powr of_int e"
    using assms unfolding float32_exact_def by blast
  have m0: "m \<noteq> 0" using False x by auto
  define E where "E = \<lfloor>log 2 \<bar>x\<bar>\<rfloor>"
  define u where "u = max E (- 126) - 23"
  have ax: "\<bar>x\<bar> = of_int \<bar>m\<bar> * 2 powr of_int e" by (simp add: x abs_mult)
  have "\<bar>x\<bar> < 2 ^ 24 * 2 powr of_int e"
  proof -
    have "real_of_int \<bar>m\<bar> < 2 ^ 24" using m by simp
    then show ?thesis unfolding ax by (simp add: mult_strict_right_mono)
  qed
  also have "\<dots> = 2 powr of_int (24 + e)"
    by (simp add: powr_add powr_numeral)
  finally have lt: "\<bar>x\<bar> < 2 powr of_int (24 + e)" .
  have "log 2 \<bar>x\<bar> < of_int (24 + e)"
    using lt False by (simp add: log_less_iff del: of_int_add)
  then have "E < 24 + e" unfolding E_def by (simp add: floor_less_iff del: of_int_add)
  then have ue: "u \<le> e" using e(1) by (simp add: u_def)
  have ulp: "ulp x = 2 powr of_int u" by (simp add: ulp_def u_def E_def)
  have "x / ulp x = x / 2 powr of_int u" by (simp only: ulp)
  also have "\<dots> = of_int m * 2 powr of_int (e - u)"
    by (simp add: x powr_diff)
  also have "(2::real) powr of_int (e - u) = of_int (2 ^ nat (e - u))"
  proof -
    have "(2::real) powr real (nat (e - u)) = 2 ^ nat (e - u)"
      by (rule powr_realpow) simp
    moreover have "real (nat (e - u)) = of_int (e - u)" using ue by simp
    ultimately show ?thesis by simp
  qed
  finally have q: "x / ulp x = of_int (m * 2 ^ nat (e - u))" by simp
  have up: "0 < ulp x" by (simp add: ulp)
  have "of_int (round_half_even (x / ulp x)) * ulp x = (x / ulp x) * ulp x"
    unfolding q round_half_even_int ..
  also have "\<dots> = x" using up by simp
  finally have r: "of_int (round_half_even (x / ulp x)) * ulp x = x" .
  have "\<bar>x\<bar> \<le> max_float32"
  proof -
    have "real_of_int \<bar>m\<bar> \<le> 2 ^ 24 - 1"
    proof -
      have "\<bar>m\<bar> \<le> 2 ^ 24 - 1" using m by simp
      then have "real_of_int \<bar>m\<bar> \<le> real_of_int (2 ^ 24 - 1)" by (simp only: of_int_le_iff)
      then show ?thesis by simp
    qed
    moreover have "(2::real) powr of_int e \<le> 2 powr of_int 104"
      using e(2) by (intro powr_mono) simp_all
    then have "(2::real) powr of_int e \<le> 2 ^ 104" by (simp only: of_int_numeral powr_numeral)
    ultimately show ?thesis
      unfolding ax max_float32_def by (intro mult_mono) auto
  qed
  then show ?thesis using False r by (simp add: round32_def Let_def)
qed

lemma float32_exact_nat: "n < 2 ^ 24 \<Longrightarrow> float32_exact (real n)"
  unfolding float32_exact_def
  by (rule exI[of _ "int n"], rule exI[of _ 0]) (auto simp: of_nat_less_numeral_power_cancel_iff)

lemma round32_1: "round32 1 = Finite 1"
  using round32_exact[OF float32_exact_nat[of 1]] by simp


lemma floor_log2:
  assumes "2 powr of_int k \<le> \<bar>x\<bar>" "\<bar>x\<bar> < 2 powr of_int (k + 1)"
  shows "\<lfloor>log 2 \<bar>x\<bar>\<rfloor> = k"
proof -
  have "0 < (2::real) powr of_int k" by simp
  then have pos: "0 < \<bar>x\<bar>" using assms(1) by linarith
  have "of_int k \<le> log 2 \<bar>x\<bar>" using assms(1) pos by (simp add: le_log_iff)
  moreover have "log 2 \<bar>x\<bar> < of_int k + 1"
    using assms(2) pos by (simp add: log_less_iff)
  ultimately show ?thesis by (simp add: floor_unique)
qed

text \<open>Values that float32 does not hold are rounded: to the even neighbour, or to zero.\<close>

lemma round32_16777217: "round32 16777217 = Finite 16777216"
proof -
  have "\<lfloor>log 2 \<bar>16777217::real\<bar>\<rfloor> = 24"
    by (rule floor_log2) (simp_all add: powr_numeral)
  then have u: "ulp 16777217 = 2" by (simp add: ulp_def)
  have "round_half_even (16777217 / 2) = 8388608"
  proof -
    have "\<lfloor>16777217 / 2 :: real\<rfloor> = 8388608" by (simp add: floor_eq_iff)
    then show ?thesis by (simp add: round_half_even_def Let_def)
  qed
  then show ?thesis by (simp add: round32_def u max_float32_def)
qed

lemma fadd_absorbs: "fadd (Finite 16777216) (Finite 1) = Finite 16777216"
  using round32_16777217 by simp


section \<open>Lemmas about the chess library model\<close>

lemma and_then_Inr [simp]: "and_then (Inr x) f = f x"
  by (simp add: and_then_def)

lemma and_then_Inl [simp]: "and_then (Inl e) f = Inl e"
  by (simp add: and_then_def)

lemma length_SQUARE_NAMES: "length SQUARE_NAMES = 64"
  by code_simp

lemma SQUARE_NAMES_nth:
  "sq < 64 \<Longrightarrow> SQUARE_NAMES ! sq = [FILE_NAMES ! (sq mod 8), RANK_NAMES ! (sq div 8)]"
proof -
  have "\<forall>sq \<in> set [0..<64]. SQUARE_NAMES ! sq = [FILE_NAMES ! (sq mod 8), RANK_NAMES ! (sq div 8)]"
    by code_simp
  then show "sq < 64 \<Longrightarrow> ?thesis" by simp
qed

lemma index_of_SQUARE_NAMES:
  "sq < 64 \<Longrightarrow> index_of (SQUARE_NAMES ! sq) SQUARE_NAMES = Some sq"
proof -
  have "\<forall>sq \<in> set [0..<64]. index_of (SQUARE_NAMES ! sq) SQUARE_NAMES = Some sq"
    by code_simp
  then show "sq < 64 \<Longrightarrow> ?thesis" by simp
qed

lemma SQUARE_NAMES_shape:
  "sq < 64 \<Longrightarrow> length (SQUARE_NAMES ! sq) = 2 \<and> hd (SQUARE_NAMES ! sq) \<noteq> CHR ''0''"
proof -
  have "\<forall>sq \<in> set [0..<64]. length (SQUARE_NAMES ! sq) = 2 \<and> hd (SQUARE_NAMES ! sq) \<noteq> CHR ''0''"
    by code_simp
  then show "sq < 64 \<Longrightarrow> ?thesis" by simp
qed

lemma symbol_piece_symbol: "symbol_piece (piece_symbol p) = Some p"
  by (cases p) (simp_all add: symbol_piece_def)

lemma from_uci_names:
  assumes "f < 64" "t < 64"
  shows "from_uci (SQUARE_NAMES ! f @ SQUARE_NAMES ! t @ suffix) =
           (case suffix of
              [] \<Rightarrow> if f = t then Inl InvalidMoveError else Inr (Move f t None)
            | [c] \<Rightarrow> (case symbol_piece c of None \<Rightarrow> Inl InvalidMoveError
                      | Some p \<Rightarrow> if f = t then Inl InvalidMoveError else Inr (Move f t (Some p)))
            | _ \<Rightarrow> Inl InvalidMoveError)"
proof -
  obtain a b where ab: "SQUARE_NAMES ! f = [a, b]" and a0: "a \<noteq> CHR ''0''"
    using SQUARE_NAMES_shape[OF assms(1)]
    by (cases "SQUARE_NAMES ! f"; cases "tl (SQUARE_NAMES ! f)") auto
  obtain c d where cd: "SQUARE_NAMES ! t = [c, d]"
    using SQUARE_NAMES_shape[OF assms(2)]
    by (cases "SQUARE_NAMES ! t"; cases "tl (SQUARE_NAMES ! t)") auto
  have f: "index_of [a, b] SQUARE_NAMES = Some f" using index_of_SQUARE_NAMES[OF assms(1)] ab by simp
  have t: "index_of [c, d] SQUARE_NAMES = Some t" using index_of_SQUARE_NAMES[OF assms(2)] cd by simp
  show ?thesis
    using a0 f t by (simp add: from_uci_def ab cd split: list.splits)
qed

lemma py_getitem_pos: "0 \<le> i \<Longrightarrow> i < int (length xs) \<Longrightarrow> py_getitem xs i = Inr (xs ! nat i)"
  by (simp add: py_getitem_def)

lemma uci_on_board:
  assumes "on_board m" "promotion m = None \<longrightarrow> from_square m \<noteq> to_square m"
  shows "uci m = Inr (SQUARE_NAMES ! from_square m @ SQUARE_NAMES ! to_square m
                        @ (case promotion m of None \<Rightarrow> [] | Some p \<Rightarrow> [piece_symbol p]))"
  using assms
  by (auto simp: uci_def on_board_def py_getitem_pos length_SQUARE_NAMES split: option.splits)

lemma from_uci_uci:
  assumes "on_board m" "from_square m \<noteq> to_square m" "uci m = Inr s"
  shows "from_uci s = Inr m"
proof -
  have s: "s = SQUARE_NAMES ! from_square m @ SQUARE_NAMES ! to_square m
                 @ (case promotion m of None \<Rightarrow> [] | Some p \<Rightarrow> [piece_symbol p])"
    using uci_on_board[of m] assms by simp
  have ft: "from_square m < 64" "to_square m < 64" using assms(1) by (simp_all add: on_board_def)
  show ?thesis
  proof (cases "promotion m")
    case None
    then show ?thesis
      unfolding s using assms(2) from_uci_names[OF ft, of "[]"] by (simp add: Move_def)
  next
    case (Some p)
    then show ?thesis
      unfolding s using assms(2) from_uci_names[OF ft, of "[piece_symbol p]"]
      by (simp add: Move_def symbol_piece_symbol)
  qed
qed

lemma rank_char_not_nbr: "r < 8 \<Longrightarrow> RANK_NAMES ! r \<notin> set ''nbr''"
proof -
  have "\<forall>r \<in> set [0..<8]. RANK_NAMES ! r \<notin> set ''nbr''" by code_simp
  then show "r < 8 \<Longrightarrow> ?thesis" by simp
qed

lemma uci_last:
  assumes "on_board m" "promotion m = None \<longrightarrow> from_square m \<noteq> to_square m"
  shows "\<exists>u. uci m = Inr u \<and>
           py_getitem u (-1) =
             Inr (case promotion m of None \<Rightarrow> RANK_NAMES ! (to_square m div 8)
                  | Some p \<Rightarrow> piece_symbol p)"
proof -
  have t: "to_square m < 64" using assms(1) by (simp add: on_board_def)
  have f: "from_square m < 64" using assms(1) by (simp add: on_board_def)
  show ?thesis
    using uci_on_board[OF assms] SQUARE_NAMES_nth[OF t] SQUARE_NAMES_nth[OF f]
    by (cases "promotion m") (simp_all add: py_getitem_def)
qed

lemma queen_test:
  "(toCol = col \<or> toRow = row \<or> real_of_int \<bar>toRow - row\<bar> / real_of_int \<bar>toCol - col\<bar> = 1)
     = (toCol = col \<or> toRow = row \<or> \<bar>toRow - row\<bar> = \<bar>toCol - col\<bar>)"
  by (cases "toCol = col") (auto simp: field_simps)

lemma mover_frame_facts:
  assumes "on_board m" "mover_frame c m = (row, col, toRow, toCol)"
  shows "0 \<le> row \<and> row < 8 \<and> 0 \<le> col \<and> col < 8 \<and> 0 \<le> toRow \<and> toRow < 8 \<and> 0 \<le> toCol \<and> toCol < 8"
    and "frame_square c row col = from_square m"
    and "frame_square c toRow toCol = to_square m"
    and "toCol - col = (if c = WHITE then file_step m else - file_step m)"
    and "toRow - row = (if c = WHITE then - rank_step m else rank_step m)"
  using assms
  by (auto simp: on_board_def mover_frame_def frame_square_def file_step_def rank_step_def
        Let_def zdiv_int zmod_int split: if_splits)

lemma length_zeros [simp]: "length (zeros n) = n"
  by (simp add: zeros_def)

lemma tensor_setitem_pos:
  "0 \<le> i \<Longrightarrow> i < int (length t) \<Longrightarrow> tensor_setitem t i v = Inr (t[nat i := round32 v])"
  by (simp add: tensor_setitem_def)

lemma dir_lookup:
  "actionToTensor_dir x = Some d \<Longrightarrow> 0 \<le> d \<and> d < 8 \<and> py_getitem tensorToAction_dir d = Inr x"
  by (auto simp: actionToTensor_dir_def tensorToAction_dir_def py_getitem_def split: if_splits)

lemma knight_lookup:
  "actionToTensor_knight_moves x = Some d \<Longrightarrow>
     0 \<le> d \<and> d < 8 \<and> py_getitem tensorToAction_knight_moves d = Inr x"
  by (auto simp: actionToTensor_knight_moves_def tensorToAction_knight_moves_def py_getitem_def
      split: if_splits)

lemma dir_defined:
  "dc \<noteq> 0 \<or> dr \<noteq> 0 \<Longrightarrow> \<exists>d. actionToTensor_dir (check_polarity dc, check_polarity dr) = Some d"
  by (auto simp: actionToTensor_dir_def check_polarity_def)

lemma knight_defined:
  "(\<bar>dc\<bar> = 1 \<and> \<bar>dr\<bar> = 2) \<or> (\<bar>dc\<bar> = 2 \<and> \<bar>dr\<bar> = 1) \<Longrightarrow>
     \<exists>k. actionToTensor_knight_moves (dc, dr) = Some k"
  by (auto simp: actionToTensor_knight_moves_def abs_if split: if_splits)

lemma index_bound:
  fixes plane row col :: int
  assumes "0 \<le> plane" "plane \<le> 72" "0 \<le> row" "row < 8" "0 \<le> col" "col < 8"
  shows "0 \<le> plane * 64 + row * 8 + col" "plane * 64 + row * 8 + col < 4672"
  using assms by auto

lemma steps_nonzero:
  "from_square m \<noteq> to_square m \<Longrightarrow> file_step m \<noteq> 0 \<or> rank_step m \<noteq> 0"
proof (rule ccontr)
  assume ne: "from_square m \<noteq> to_square m" and "\<not> (file_step m \<noteq> 0 \<or> rank_step m \<noteq> 0)"
  then have "to_square m mod 8 = from_square m mod 8" "to_square m div 8 = from_square m div 8"
    by (simp_all add: file_step_def rank_step_def)
  then have "from_square m = to_square m"
    by (metis div_mult_mod_eq)
  with ne show False by simp
qed

lemma actionToTensor_unfold:
  assumes "mover_frame color m = (row, col, toRow, toCol)"
  shows "actionToTensor m color prob =
     (if toCol = col \<or> toRow = row \<or> \<bar>toRow - row\<bar> = \<bar>toCol - col\<bar>
         then
           and_then (uci m) (\<lambda>u.
           and_then (py_getitem u (-1)) (\<lambda>c.
             if c \<in> set ''nbr'' then
               (case index_of c ''nbr'' of
                  None \<Rightarrow> Inl ValueError
                | Some k \<Rightarrow>
                    tensor_setitem (zeros (8 * 8 * 73))
                      ((64 + (if toCol > col then int k * 3 + 1
                              else if toCol < col then int k * 3 + 2 else int k * 3)) * 8 * 8
                         + row * 8 + col) prob)
             else
               (case actionToTensor_dir (check_polarity (toCol - col), check_polarity (toRow - row)) of
                     None \<Rightarrow> Inl KeyError
                   | Some d \<Rightarrow>
                       tensor_setitem (zeros (8 * 8 * 73))
                         ((d * 7 + (max \<bar>toRow - row\<bar> \<bar>toCol - col\<bar> - 1)) * 64 + row * 8 + col) prob)))
         else
           (case actionToTensor_knight_moves (toCol - col, toRow - row) of
              None \<Rightarrow> Inl KeyError
            | Some k \<Rightarrow> tensor_setitem (zeros (8 * 8 * 73)) ((56 + k) * 64 + row * 8 + col) prob))"
  unfolding actionToTensor_def assms Let_def prod.case queen_test
  by (rule refl)

lemma actionToTensor_queen:
  assumes ob: "on_board m" and ql: "queen_line m"
    and np: "promotion m \<noteq> Some KNIGHT" "promotion m \<noteq> Some BISHOP" "promotion m \<noteq> Some ROOK"
    and fr: "mover_frame c m = (row, col, toRow, toCol)"
  shows "\<exists>d. actionToTensor_dir (check_polarity (toCol - col), check_polarity (toRow - row)) = Some d \<and>
           actionToTensor m c prob =
             Inr ((zeros 4672)[nat ((d * 7 + (max \<bar>toRow - row\<bar> \<bar>toCol - col\<bar> - 1)) * 64 + row * 8 + col) := round32 prob])"
proof -
  note ff = mover_frame_facts[OF ob fr]
  have ne: "from_square m \<noteq> to_square m" using ql by (simp add: queen_line_def)
  have steps: "file_step m \<noteq> 0 \<or> rank_step m \<noteq> 0"
    using ne steps_nonzero by blast
  then have nz: "toCol - col \<noteq> 0 \<or> toRow - row \<noteq> 0" using ff(4,5) by (auto split: if_splits)
  obtain d where d: "actionToTensor_dir (check_polarity (toCol - col), check_polarity (toRow - row)) = Some d"
    using dir_defined[OF nz] by blast
  have db: "0 \<le> d" "d < 8" using dir_lookup[OF d] by auto
  define squares where "squares = max \<bar>toRow - row\<bar> \<bar>toCol - col\<bar>"
  have sq: "1 \<le> squares" "squares \<le> 7" using nz ff(1) by (auto simp: squares_def)
  have pl: "0 \<le> d * 7 + (squares - 1)" "d * 7 + (squares - 1) \<le> 72" using db sq by auto
  have test: "toCol = col \<or> toRow = row \<or> \<bar>toRow - row\<bar> = \<bar>toCol - col\<bar>"
    using ql ff(4,5) by (auto simp: queen_line_def split: if_splits)
  obtain u where u: "uci m = Inr u"
    and lu: "py_getitem u (-1) = Inr (case promotion m of None \<Rightarrow> RANK_NAMES ! (to_square m div 8) | Some p \<Rightarrow> piece_symbol p)"
    using uci_last[of m] ob ne by auto
  have notnbr: "(case promotion m of None \<Rightarrow> RANK_NAMES ! (to_square m div 8) | Some p \<Rightarrow> piece_symbol p) \<notin> set ''nbr''"
  proof (cases "promotion m")
    case None
    have "to_square m div 8 < 8" using ob by (simp add: on_board_def div_less_iff_less_mult)
    then show ?thesis using rank_char_not_nbr[of "to_square m div 8"] None by simp
  next
    case (Some p)
    then show ?thesis using np by (cases p) simp_all
  qed
  have "actionToTensor m c prob =
          tensor_setitem (zeros 4672) ((d * 7 + (squares - 1)) * 64 + row * 8 + col) prob"
    using test notnbr
    by (simp add: actionToTensor_unfold[OF fr] u lu d squares_def del: set_simps)
  also have "\<dots> = Inr ((zeros 4672)[nat ((d * 7 + (squares - 1)) * 64 + row * 8 + col) := round32 prob])"
    using index_bound[OF pl] ff(1) by (intro tensor_setitem_pos) auto
  finally show ?thesis using d by (auto simp: squares_def)
qed

lemma actionToTensor_underpromotion:
  assumes ob: "on_board m" and pr: "promotion m = Some p" "p = KNIGHT \<or> p = BISHOP \<or> p = ROOK"
    and fr: "mover_frame c m = (row, col, toRow, toCol)"
    and test: "toCol = col \<or> toRow = row \<or> \<bar>toRow - row\<bar> = \<bar>toCol - col\<bar>"
  shows "\<exists>k. k < 3 \<and> py_getitem ''nbr'' (int k) = Inr (piece_symbol p) \<and>
           actionToTensor m c prob =
             Inr ((zeros 4672)[nat ((64 + (int k * 3 + (if toCol > col then 1 else if toCol < col then 2 else 0))) * 64
                     + row * 8 + col) := round32 prob])"
proof -
  note ff = mover_frame_facts[OF ob fr]
  define k where "k = order p - 1"
  have k: "k < 3" "py_getitem ''nbr'' (int k) = Inr (piece_symbol p)"
      "index_of (piece_symbol p) ''nbr'' = Some k" "piece_symbol p \<in> set ''nbr''"
    using pr(2) by (auto simp: k_def py_getitem_def)
  obtain u where u: "uci m = Inr u" and lu: "py_getitem u (-1) = Inr (piece_symbol p)"
    using uci_last[of m] ob pr(1) by auto
  define i where "i = int k * 3 + (if toCol > col then 1 else if toCol < col then 2 else 0)"
  have ib: "0 \<le> 64 + i" "64 + i \<le> 72" using k(1) by (auto simp: i_def)
  have "actionToTensor m c prob =
          (case index_of (piece_symbol p) ''nbr'' of
                  None \<Rightarrow> Inl ValueError
                | Some k \<Rightarrow>
                    tensor_setitem (zeros (8 * 8 * 73))
                      ((64 + (if toCol > col then int k * 3 + 1
                              else if toCol < col then int k * 3 + 2 else int k * 3)) * 8 * 8
                         + row * 8 + col) prob)"
    unfolding actionToTensor_unfold[OF fr] u lu and_then_Inr using test k(4) by (simp only: if_True)
  also have "\<dots> = tensor_setitem (zeros 4672) ((64 + i) * 64 + row * 8 + col) prob"
    unfolding k(3) by (simp add: i_def)
  also have "\<dots> = Inr ((zeros 4672)[nat ((64 + i) * 64 + row * 8 + col) := round32 prob])"
    using index_bound[OF ib] ff(1) by (intro tensor_setitem_pos) auto
  finally show ?thesis using k(1,2) unfolding i_def by blast
qed

lemma actionToTensor_knight:
  assumes ob: "on_board m" and kj: "knight_jump m"
    and fr: "mover_frame c m = (row, col, toRow, toCol)"
  shows "\<exists>k. actionToTensor_knight_moves (toCol - col, toRow - row) = Some k \<and>
           actionToTensor m c prob =
             Inr ((zeros 4672)[nat ((56 + k) * 64 + row * 8 + col) := round32 prob])"
proof -
  note ff = mover_frame_facts[OF ob fr]
  have ab: "(\<bar>toCol - col\<bar> = 1 \<and> \<bar>toRow - row\<bar> = 2) \<or> (\<bar>toCol - col\<bar> = 2 \<and> \<bar>toRow - row\<bar> = 1)"
    using kj ff(4,5) by (auto simp: knight_jump_def split: if_splits)
  obtain k where k: "actionToTensor_knight_moves (toCol - col, toRow - row) = Some k"
    using knight_defined[OF ab] by blast
  have kb: "0 \<le> 56 + k" "56 + k \<le> 72" using knight_lookup[OF k] by auto
  have test: "\<not> (toCol = col \<or> toRow = row \<or> \<bar>toRow - row\<bar> = \<bar>toCol - col\<bar>)"
    using ab by auto
  have "actionToTensor m c prob = tensor_setitem (zeros 4672) ((56 + k) * 64 + row * 8 + col) prob"
    using test by (simp add: actionToTensor_unfold[OF fr] k del: set_simps)
  also have "\<dots> = Inr ((zeros 4672)[nat ((56 + k) * 64 + row * 8 + col) := round32 prob])"
    using index_bound[OF kb] ff(1) by (intro tensor_setitem_pos) auto
  finally show ?thesis using k by blast
qed

lemma index_split:
  fixes plane row col :: int
  assumes "0 \<le> row" "row < 8" "0 \<le> col" "col < 8"
  shows "(plane * 64 + row * 8 + col) div 64 = plane"
    and "((plane * 64 + row * 8 + col) mod 64) div 8 = row"
    and "((plane * 64 + row * 8 + col) mod 64) mod 8 = col"
proof -
  have r: "0 \<le> row * 8 + col" "row * 8 + col < 64" using assms by auto
  have e: "plane * 64 + row * 8 + col = (row * 8 + col) + plane * 64" by simp
  show "(plane * 64 + row * 8 + col) div 64 = plane"
    unfolding e using r by simp
  have m: "(plane * 64 + row * 8 + col) mod 64 = row * 8 + col"
    unfolding e using r by simp
  show "((plane * 64 + row * 8 + col) mod 64) div 8 = row"
    unfolding m using assms by simp
  show "((plane * 64 + row * 8 + col) mod 64) mod 8 = col"
    unfolding m using assms by simp
qed

lemma actionToTensor_single_entry:
  assumes "valid_displacement m"
  shows "\<exists>idx < 4672. idx div 64 \<le> 72 \<and>
           actionToTensor m color prob = Inr ((zeros 4672)[idx := round32 prob])"
proof -
  obtain row col toRow toCol where fr: "mover_frame color m = (row, col, toRow, toCol)"
    by (metis prod_cases4)
  have ob: "on_board m" using assms by (simp add: valid_displacement_def)
  note ff = mover_frame_facts[OF ob fr]
  have key: "\<exists>plane. 0 \<le> plane \<and> plane \<le> 72 \<and>
      actionToTensor m color prob = Inr ((zeros 4672)[nat (plane * 64 + row * 8 + col) := round32 prob])"
  proof (cases "knight_jump m")
    case True
    obtain k where k: "actionToTensor_knight_moves (toCol - col, toRow - row) = Some k"
      and e: "actionToTensor m color prob = Inr ((zeros 4672)[nat ((56 + k) * 64 + row * 8 + col) := round32 prob])"
      using actionToTensor_knight[OF ob True fr] by blast
    have "0 \<le> 56 + k \<and> 56 + k \<le> 72" using knight_lookup[OF k] by auto
    then show ?thesis using e by blast
  next
    case False
    then have ql: "queen_line m" using assms by (simp add: valid_displacement_def)
    show ?thesis
    proof (cases "\<exists>p. promotion m = Some p \<and> (p = KNIGHT \<or> p = BISHOP \<or> p = ROOK)")
      case True
      then obtain p where p: "promotion m = Some p" "p = KNIGHT \<or> p = BISHOP \<or> p = ROOK" by blast
      have test: "toCol = col \<or> toRow = row \<or> \<bar>toRow - row\<bar> = \<bar>toCol - col\<bar>"
        using ql ff(4,5) by (auto simp: queen_line_def split: if_splits)
      obtain k where k: "k < 3"
        and e: "actionToTensor m color prob =
             Inr ((zeros 4672)[nat ((64 + (int k * 3 + (if toCol > col then 1 else if toCol < col then 2 else 0))) * 64
                     + row * 8 + col) := round32 prob])"
        using actionToTensor_underpromotion[OF ob p fr test] by blast
      have "0 \<le> 64 + (int k * 3 + (if toCol > col then 1 else if toCol < col then 2 else 0))
          \<and> 64 + (int k * 3 + (if toCol > col then 1 else if toCol < col then 2 else 0)) \<le> 72"
        using k by auto
      then show ?thesis using e by blast
    next
      case False
      then have np: "promotion m \<noteq> Some KNIGHT" "promotion m \<noteq> Some BISHOP" "promotion m \<noteq> Some ROOK"
        by auto
      obtain d where d: "actionToTensor_dir (check_polarity (toCol - col), check_polarity (toRow - row)) = Some d"
        and e: "actionToTensor m color prob =
             Inr ((zeros 4672)[nat ((d * 7 + (max \<bar>toRow - row\<bar> \<bar>toCol - col\<bar> - 1)) * 64 + row * 8 + col) := round32 prob])"
        using actionToTensor_queen[OF ob ql np fr] by blast
      have nz: "toCol - col \<noteq> 0 \<or> toRow - row \<noteq> 0"
        using steps_nonzero[of m] ql ff(4,5) by (auto simp: queen_line_def split: if_splits)
      have "0 \<le> d * 7 + (max \<bar>toRow - row\<bar> \<bar>toCol - col\<bar> - 1)
          \<and> d * 7 + (max \<bar>toRow - row\<bar> \<bar>toCol - col\<bar> - 1) \<le> 72"
        using dir_lookup[OF d] nz ff(1) by auto
      then show ?thesis using e by blast
    qed
  qed
  then obtain plane where pl: "0 \<le> plane" "plane \<le> 72"
    and e: "actionToTensor m color prob = Inr ((zeros 4672)[nat (plane * 64 + row * 8 + col) := round32 prob])"
    by blast
  have b: "0 \<le> plane * 64 + row * 8 + col" "plane * 64 + row * 8 + col < 4672"
    using index_bound[OF pl] ff(1) by auto
  have dv: "(plane * 64 + row * 8 + col) div 64 = plane"
    using index_split(1)[of row col plane] ff(1) by simp
  have "nat (plane * 64 + row * 8 + col) div 64 = nat plane"
    using b(1) dv by (metis nat_div_distrib nat_numeral)
  then have "nat (plane * 64 + row * 8 + col) div 64 \<le> 72" using pl by simp
  moreover have "nat (plane * 64 + row * 8 + col) < 4672" using b by simp
  ultimately show ?thesis using e by blast
qed

lemma filter_eq_upt: "filter (\<lambda>i. i = idx) [0..<n] = (if idx < n then [idx] else [])"
  by (induction n) auto

lemma nonzero_single:
  assumes "idx < n" "v \<noteq> Finite 0"
  shows "nonzero ((zeros n)[idx := v]) = [idx]"
proof -
  have "filter (\<lambda>i. ((zeros n)[idx := v]) ! i \<noteq> Finite 0) [0..<n] = filter (\<lambda>i. i = idx) [0..<n]"
    using assms by (intro filter_cong) (auto simp: zeros_def nth_list_update)
  then show ?thesis using assms by (simp add: nonzero_def filter_eq_upt)
qed



lemma small_int_cases:
  fixes i :: int
  assumes "0 \<le> i" "i < 8"
  shows "i = 0 \<or> i = 1 \<or> i = 2 \<or> i = 3 \<or> i = 4 \<or> i = 5 \<or> i = 6 \<or> i = 7"
  using assms by arith

lemma lettering_nth:
  assumes "0 \<le> col" "col < 8"
  shows "py_getitem (lettering c) col = Inr (FILE_NAMES ! nat (if c = WHITE then col else 7 - col))"
  using small_int_cases[OF assms]
  by (auto simp: lettering_def py_getitem_def FILE_NAMES_def WHITE_def)

lemma numbering_nth:
  assumes "0 \<le> row" "row < 8"
  shows "py_getitem (numbering c) row = Inr (RANK_NAMES ! nat (if c = WHITE then 7 - row else row))"
  using small_int_cases[OF assms]
  by (auto simp: numbering_def py_getitem_def RANK_NAMES_def WHITE_def)

lemma nat_square_split:
  fixes r f :: int
  assumes "0 \<le> r" "r < 8" "0 \<le> f" "f < 8"
  shows "nat (8 * r + f) < 64" "nat (8 * r + f) mod 8 = nat f" "nat (8 * r + f) div 8 = nat r"
proof -
  have nn: "0 \<le> 8 * r + f" using assms by simp
  show "nat (8 * r + f) < 64" using assms by simp
  have "(8 * r + f) mod 8 = f" using assms by simp
  then show "nat (8 * r + f) mod 8 = nat f"
    using nn by (metis nat_mod_distrib nat_numeral zero_le_numeral)
  have "(8 * r + f) div 8 = r" using assms by simp
  then show "nat (8 * r + f) div 8 = nat r"
    using nn by (metis nat_div_distrib nat_numeral)
qed

lemma frame_square_name:
  assumes "0 \<le> row" "row < 8" "0 \<le> col" "col < 8"
  shows "frame_square c row col < 64"
    and "SQUARE_NAMES ! frame_square c row col =
          [FILE_NAMES ! nat (if c = WHITE then col else 7 - col),
           RANK_NAMES ! nat (if c = WHITE then 7 - row else row)]"
proof -
  have w: "0 \<le> 7 - row" "7 - row < 8" "0 \<le> 7 - col" "7 - col < 8" using assms by auto
  show lt: "frame_square c row col < 64"
    using nat_square_split(1)[OF w(1,2) assms(3,4)] nat_square_split(1)[OF assms(1,2) w(3,4)]
    by (simp add: frame_square_def)
  have "frame_square c row col mod 8 = nat (if c = WHITE then col else 7 - col)"
    using nat_square_split(2)[OF w(1,2) assms(3,4)] nat_square_split(2)[OF assms(1,2) w(3,4)]
    by (simp add: frame_square_def)
  moreover have "frame_square c row col div 8 = nat (if c = WHITE then 7 - row else row)"
    using nat_square_split(3)[OF w(1,2) assms(3,4)] nat_square_split(3)[OF assms(1,2) w(3,4)]
    by (simp add: frame_square_def)
  ultimately show "SQUARE_NAMES ! frame_square c row col =
          [FILE_NAMES ! nat (if c = WHITE then col else 7 - col),
           RANK_NAMES ! nat (if c = WHITE then 7 - row else row)]"
    using SQUARE_NAMES_nth[OF lt] by simp
qed

lemma coordinates_on_board:
  assumes "0 \<le> row" "row < 8" "0 \<le> col" "col < 8" "0 \<le> toRow" "toRow < 8" "0 \<le> toCol" "toCol < 8"
  shows "coordinates c row col toRow toCol =
           Inr (SQUARE_NAMES ! frame_square c row col @ SQUARE_NAMES ! frame_square c toRow toCol)"
  using assms
  by (simp add: coordinates_def lettering_nth numbering_nth frame_square_name)

lemma coordinates_high:
  assumes "0 \<le> row" "row < 8" "0 \<le> col" "col < 8" "8 \<le> toRow \<or> 8 \<le> toCol"
  shows "coordinates c row col toRow toCol = Inl IndexError"
proof -
  have l: "length (lettering c) = 8" "length (numbering c) = 8"
    by (simp_all add: lettering_def numbering_def)
  have "py_getitem (lettering c) toCol = Inl IndexError \<or>
        (\<exists>x. py_getitem (lettering c) toCol = Inr x \<and> py_getitem (numbering c) toRow = Inl IndexError)"
    using assms(5) l by (auto simp: py_getitem_def Let_def)
  then show ?thesis
    using assms(1-4) by (auto simp: coordinates_def lettering_nth numbering_nth)
qed

lemma py_getitem_wrap8:
  assumes "length xs = 8" "- 8 \<le> i" "i < 0"
  shows "py_getitem xs i = py_getitem xs (i + 8)"
  using assms by (simp add: py_getitem_def Let_def add.commute)

lemma tensorToAction_move_unfold:
  fixes plane row col :: int
  assumes "0 \<le> plane" "0 \<le> row" "row < 8" "0 \<le> col" "col < 8"
  shows "tensorToAction_move c qp (nat (plane * 64 + row * 8 + col)) =
     and_then (tensorToAction_target c qp plane row col)
           (\<lambda>(toRow, toCol, promo).
         and_then (coordinates c row col toRow toCol) (\<lambda>s.
         from_uci (s @ promo)))"
proof -
  have nn: "0 \<le> plane * 64 + row * 8 + col" using assms by auto
  show ?thesis
    unfolding tensorToAction_move_def Let_def int_nat_eq
    using nn index_split[OF assms(2-5), of plane] by simp
qed

lemma polarity_times:
  "dc = 0 \<or> dr = 0 \<or> \<bar>dr\<bar> = \<bar>dc\<bar> \<Longrightarrow>
     check_polarity dc * max \<bar>dr\<bar> \<bar>dc\<bar> = dc \<and> check_polarity dr * max \<bar>dr\<bar> \<bar>dc\<bar> = dr"
  by (auto simp: check_polarity_def max_def abs_if split: if_splits)

lemma d1d6_frame: "mover_frame WHITE (Move 3 43 None) = (7, 3, 2, 3)"
  by (simp add: mover_frame_def Move_def WHITE_def)

lemma d1d6_valid: "valid_displacement (Move 3 43 None)"
  by (simp add: valid_displacement_def on_board_def queen_line_def file_step_def rank_step_def
      Move_def)

lemma d1d6_tensor: "actionToTensor (Move 3 43 None) WHITE w = Inr ((zeros 4672)[315 := round32 w])"
proof -
  have ob: "on_board (Move 3 43 None)" and ql: "queen_line (Move 3 43 None)"
    using d1d6_valid by (simp_all add: valid_displacement_def knight_jump_def file_step_def
        rank_step_def Move_def)
  have np: "promotion (Move 3 43 None) \<noteq> Some KNIGHT" "promotion (Move 3 43 None) \<noteq> Some BISHOP"
      "promotion (Move 3 43 None) \<noteq> Some ROOK"
    by (simp_all add: Move_def)
  obtain d where d: "actionToTensor_dir (check_polarity (3 - 3), check_polarity (2 - 7)) = Some d"
    and e: "actionToTensor (Move 3 43 None) WHITE w =
             Inr ((zeros 4672)[nat ((d * 7 + (max \<bar>2 - 7\<bar> \<bar>3 - 3\<bar> - 1)) * 64 + 7 * 8 + 3) := round32 w])"
    using actionToTensor_queen[OF ob ql np d1d6_frame, of w] by blast
  have "d = 0" using d by (simp add: actionToTensor_dir_def check_polarity_def)
  then show ?thesis using e by simp
qed

section \<open>The encoder on single moves\<close>

text \<open>
  Claim C9. The move d1d6, encoded for White, lies on the queen-like plane of direction
  index 0 (straight up the board in the mover's frame) and distance 5, which is plane
  \<open>0 * 7 + (5 - 1) = 4\<close>; the one entry that \<open>actionToTensor\<close> sets is at index
  \<open>4 * 64 + 7 * 8 + 3\<close>.
\<close>

theorem d1d6_encoding:
  "from_uci ''d1d6'' = Inr (Move 3 43 None)
   \<and> mover_frame WHITE (Move 3 43 None) = (7, 3, 2, 3)
   \<and> actionToTensor_dir (check_polarity (3 - 3), check_polarity (2 - 7)) = Some 0
   \<and> max \<bar>2 - 7\<bar> \<bar>3 - 3\<bar> = (5::int)
   \<and> actionToTensor (Move 3 43 None) WHITE 1 = Inr ((zeros 4672)[4 * 64 + 7 * 8 + 3 := Finite 1])
   \<and> nonzero ((zeros 4672)[4 * 64 + 7 * 8 + 3 := Finite 1]) = [4 * 64 + 7 * 8 + 3]"
proof -
  have a: "from_uci ''d1d6'' = Inr (Move 3 43 None)"
    by code_simp
  have c: "actionToTensor_dir (check_polarity (3 - 3), check_polarity (2 - 7)) = Some 0"
    by (simp add: actionToTensor_dir_def check_polarity_def)
  have n: "nonzero ((zeros 4672)[4 * 64 + 7 * 8 + 3 := Finite 1]) = [4 * 64 + 7 * 8 + 3]"
    by (rule nonzero_single) simp_all
  show ?thesis using a d1d6_frame c d1d6_tensor[of 1] n by (simp add: round32_1)
qed




section \<open>Decoding what was encoded\<close>

lemma target_queen:
  fixes d squares row col :: int
  assumes dir: "py_getitem tensorToAction_dir d = Inr (sx, sy)"
    and d: "0 \<le> d" "d < 8" and sq: "1 \<le> squares" "squares \<le> 7"
    and rc: "0 \<le> row" "row < 8" "0 \<le> col" "col < 8"
    and dest: "0 \<le> row + sy * squares" "row + sy * squares < 8"
              "0 \<le> col + sx * squares" "col + sx * squares < 8"
  shows "tensorToAction_target c qp (d * 7 + (squares - 1)) row col =
           Inr (row + sy * squares, col + sx * squares,
                if dict_get qp (SQUARE_NAMES ! frame_square c row col
                      @ SQUARE_NAMES ! frame_square c (row + sy * squares) (col + sx * squares) @ ''q'') False
                then ''q'' else '''')"
proof -
  have p: "d * 7 + (squares - 1) < 56" using d sq by simp
  have e: "d * 7 + (squares - 1) = (squares - 1) + d * 7" by simp
  have dv: "(d * 7 + (squares - 1)) div 7 = d" unfolding e using sq by simp
  have md: "1 + (d * 7 + (squares - 1)) mod 7 = squares" unfolding e using sq by simp
  show ?thesis
    unfolding tensorToAction_target_def Let_def dv md
    using p dir coordinates_on_board[OF rc(1,2,3,4) dest]
    by simp
qed

lemma target_knight:
  fixes k row col :: int
  assumes "py_getitem tensorToAction_knight_moves k = Inr (dx, dy)" "0 \<le> k" "k < 8"
  shows "tensorToAction_target c qp (56 + k) row col = Inr (row + dy, col + dx, '''')"
  using assms by (simp add: tensorToAction_target_def)

lemma target_underpromotion:
  fixes row col s :: int
  assumes "k < 3" "py_getitem ''nbr'' (int k) = Inr ch" "s = 0 \<or> s = 1 \<or> s = 2"
  shows "tensorToAction_target c qp (64 + (int k * 3 + s)) row col =
           Inr (row - 1, (if s = 1 then col + 1 else if s = 2 then col - 1 else col), [ch])"
proof -
  have e: "int k * 3 + s = s + int k * 3" by simp
  have dv: "(int k * 3 + s) div 3 = int k" unfolding e using assms(3) by auto
  have md: "(int k * 3 + s) mod 3 = s" unfolding e using assms(3) by auto
  have ge: "\<not> 64 + (int k * 3 + s) < 56" "\<not> 64 + (int k * 3 + s) < 64" using assms(3) by auto
  have m64: "64 + (int k * 3 + s) - 64 = int k * 3 + s" by simp
  show ?thesis
    unfolding tensorToAction_target_def Let_def m64 dv md
    using ge assms(2,3) by auto
qed

lemma tensorToAction_single:
  assumes "idx < n" "v \<noteq> Finite 0"
  shows "tensorToAction ((zeros n)[idx := v]) c qp =
           and_then (tensorToAction_move c qp idx) (\<lambda>mv. Inr [mv])"
  by (simp add: tensorToAction_def nonzero_single[OF assms])

lemma Move_eta: "Move (from_square m) (to_square m) (promotion m) = m"
  by (simp add: Move_def)

lemma promotion_step:
  assumes ob: "on_board m" and fs: "\<bar>file_step m\<bar> \<le> 1"
    and rs: "rank_step m = (if c = WHITE then 1 else -1)"
    and fr: "mover_frame c m = (row, col, toRow, toCol)"
  shows "toRow = row - 1" "toCol = col \<or> toCol = col + 1 \<or> toCol = col - 1" "queen_line m"
proof -
  note ff = mover_frame_facts[OF ob fr]
  show "toRow = row - 1" using ff(5) rs by (auto split: if_splits)
  show "toCol = col \<or> toCol = col + 1 \<or> toCol = col - 1" using ff(4) fs by (auto split: if_splits)
  have "rank_step m \<noteq> 0" using rs by (auto split: if_splits)
  then have "from_square m \<noteq> to_square m" by (auto simp: rank_step_def)
  moreover have "file_step m = 0 \<or> \<bar>file_step m\<bar> = \<bar>rank_step m\<bar>"
    using fs rs by (auto split: if_splits)
  ultimately show "queen_line m" by (auto simp: queen_line_def)
qed

lemma roundtrip_move:
  assumes ls: "legal_shape c m" and pz: "round32 prob \<noteq> Finite 0"
    and q1: "promotion m = Some QUEEN \<Longrightarrow>
               dict_get qp (SQUARE_NAMES ! from_square m @ SQUARE_NAMES ! to_square m @ ''q'') False"
    and q2: "promotion m = None \<Longrightarrow>
               \<not> dict_get qp (SQUARE_NAMES ! from_square m @ SQUARE_NAMES ! to_square m @ ''q'') False"
  shows "\<exists>t. actionToTensor m c prob = Inr t \<and> tensorToAction t c qp = Inr [m]"
proof -
  obtain row col toRow toCol where fr: "mover_frame c m = (row, col, toRow, toCol)"
    by (metis prod_cases4)
  have ob: "on_board m" using ls by (simp add: legal_shape_def)
  note ff = mover_frame_facts[OF ob fr]
  have rc: "0 \<le> row" "row < 8" "0 \<le> col" "col < 8"
    and trc: "0 \<le> toRow" "toRow < 8" "0 \<le> toCol" "toCol < 8" using ff(1) by auto
  have ft: "from_square m < 64" "to_square m < 64" using ob by (simp_all add: on_board_def)
  have co: "coordinates c row col toRow toCol =
              Inr (SQUARE_NAMES ! from_square m @ SQUARE_NAMES ! to_square m)"
    using coordinates_on_board[OF rc trc, of c] ff(2,3) by simp
  have key: "\<exists>plane. 0 \<le> plane \<and> plane \<le> 72 \<and>
      actionToTensor m c prob = Inr ((zeros 4672)[nat (plane * 64 + row * 8 + col) := round32 prob]) \<and>
      (\<exists>promo. tensorToAction_target c qp plane row col = Inr (toRow, toCol, promo) \<and>
         from_uci (SQUARE_NAMES ! from_square m @ SQUARE_NAMES ! to_square m @ promo) = Inr m)"
  proof (cases "\<exists>p. promotion m = Some p \<and> (p = KNIGHT \<or> p = BISHOP \<or> p = ROOK)")
    case True
    then obtain p where p: "promotion m = Some p" "p = KNIGHT \<or> p = BISHOP \<or> p = ROOK" by blast
    have sh: "\<bar>file_step m\<bar> \<le> 1" "rank_step m = (if c = WHITE then 1 else -1)"
      using ls p(1) by (simp_all add: legal_shape_def)
    note ps = promotion_step[OF ob sh fr]
    have test: "toCol = col \<or> toRow = row \<or> \<bar>toRow - row\<bar> = \<bar>toCol - col\<bar>"
      using ps(1,2) by auto
    define s :: int where "s = (if toCol > col then 1 else if toCol < col then 2 else 0)"
    obtain k where k: "k < 3" "py_getitem ''nbr'' (int k) = Inr (piece_symbol p)"
      and e: "actionToTensor m c prob =
             Inr ((zeros 4672)[nat ((64 + (int k * 3 + s)) * 64 + row * 8 + col) := round32 prob])"
      using actionToTensor_underpromotion[OF ob p fr test, of prob] unfolding s_def by blast
    have s3: "s = 0 \<or> s = 1 \<or> s = 2" by (simp add: s_def)
    have tc: "(if s = 1 then col + 1 else if s = 2 then col - 1 else col) = toCol"
      using ps(2) by (auto simp: s_def)
    have tg: "tensorToAction_target c qp (64 + (int k * 3 + s)) row col = Inr (toRow, toCol, [piece_symbol p])"
      using target_underpromotion[OF k s3, of c qp row col] tc ps(1) by simp
    have ne: "from_square m \<noteq> to_square m" using ps(3) by (simp add: queen_line_def)
    have fu: "from_uci (SQUARE_NAMES ! from_square m @ SQUARE_NAMES ! to_square m @ [piece_symbol p]) = Inr m"
      using from_uci_names[OF ft, of "[piece_symbol p]"] ne p(1) Move_eta[of m]
      by (simp add: symbol_piece_symbol)
    have "0 \<le> 64 + (int k * 3 + s) \<and> 64 + (int k * 3 + s) \<le> 72" using k(1) s3 by auto
    then show ?thesis using e tg fu by blast
  next
    case False
    then have np: "promotion m \<noteq> Some KNIGHT" "promotion m \<noteq> Some BISHOP" "promotion m \<noteq> Some ROOK"
      by auto
    show ?thesis
    proof (cases "promotion m = None \<and> knight_jump m")
      case True
      obtain k where k: "actionToTensor_knight_moves (toCol - col, toRow - row) = Some k"
        and e: "actionToTensor m c prob = Inr ((zeros 4672)[nat ((56 + k) * 64 + row * 8 + col) := round32 prob])"
        using actionToTensor_knight[OF ob conjunct2[OF True] fr] by blast
      note kl = knight_lookup[OF k]
      have tg: "tensorToAction_target c qp (56 + k) row col = Inr (toRow, toCol, '''')"
        using target_knight[of k "toCol - col" "toRow - row" c qp row col] kl by simp
      have "file_step m \<noteq> 0" using True by (auto simp: knight_jump_def)
      then have ne: "from_square m \<noteq> to_square m" by (auto simp: file_step_def)
      have fu: "from_uci (SQUARE_NAMES ! from_square m @ SQUARE_NAMES ! to_square m @ '''') = Inr m"
        using from_uci_names[OF ft, of "[]"] ne True Move_eta[of m] by simp
      have "0 \<le> 56 + k \<and> 56 + k \<le> 72" using kl by auto
      then show ?thesis using e tg fu by blast
    next
      case nk: False
      have pq: "promotion m = None \<or> promotion m = Some QUEEN"
        using ls np by (auto simp: legal_shape_def split: option.splits)
      have ql: "queen_line m"
      proof (cases "promotion m")
        case None
        then show ?thesis using ls nk by (simp add: legal_shape_def)
      next
        case (Some p)
        then have "\<bar>file_step m\<bar> \<le> 1" "rank_step m = (if c = WHITE then 1 else -1)"
          using ls by (simp_all add: legal_shape_def)
        then show ?thesis using promotion_step(3)[OF ob _ _ fr] by simp
      qed
      define squares where "squares = max \<bar>toRow - row\<bar> \<bar>toCol - col\<bar>"
      obtain d where d: "actionToTensor_dir (check_polarity (toCol - col), check_polarity (toRow - row)) = Some d"
        and e: "actionToTensor m c prob =
             Inr ((zeros 4672)[nat ((d * 7 + (squares - 1)) * 64 + row * 8 + col) := round32 prob])"
        using actionToTensor_queen[OF ob ql np fr] unfolding squares_def by blast
      note dl = dir_lookup[OF d]
      have test: "toCol - col = 0 \<or> toRow - row = 0 \<or> \<bar>toRow - row\<bar> = \<bar>toCol - col\<bar>"
        using ql ff(4,5) by (auto simp: queen_line_def split: if_splits)
      have pt: "check_polarity (toCol - col) * squares = toCol - col"
               "check_polarity (toRow - row) * squares = toRow - row"
        using polarity_times[OF test] by (simp_all add: squares_def)
      have nz: "toCol - col \<noteq> 0 \<or> toRow - row \<noteq> 0"
        using steps_nonzero[of m] ql ff(4,5) by (auto simp: queen_line_def split: if_splits)
      have sq: "1 \<le> squares" "squares \<le> 7" using nz rc trc by (auto simp: squares_def)
      have dest: "row + check_polarity (toRow - row) * squares = toRow"
                 "col + check_polarity (toCol - col) * squares = toCol"
        using pt by simp_all
      let ?promo = "if dict_get qp (SQUARE_NAMES ! from_square m @ SQUARE_NAMES ! to_square m @ ''q'') False
                    then ''q'' else ''''"
      have tg: "tensorToAction_target c qp (d * 7 + (squares - 1)) row col = Inr (toRow, toCol, ?promo)"
        using target_queen[of d "check_polarity (toCol - col)" "check_polarity (toRow - row)" squares row col c qp]
          dl sq rc trc ff(2,3) unfolding dest by simp
      have ne: "from_square m \<noteq> to_square m" using ql by (simp add: queen_line_def)
      have fu: "from_uci (SQUARE_NAMES ! from_square m @ SQUARE_NAMES ! to_square m @ ?promo) = Inr m"
      proof (cases "promotion m")
        case None
        then show ?thesis
          using q2 from_uci_names[OF ft, of "[]"] ne Move_eta[of m] by simp
      next
        case (Some p)
        then have "promotion m = Some QUEEN" using pq by simp
        then show ?thesis
          using q1 from_uci_names[OF ft, of "''q''"] ne Move_eta[of m]
          by (simp add: symbol_piece_def)
      qed
      have "0 \<le> d * 7 + (squares - 1) \<and> d * 7 + (squares - 1) \<le> 72" using dl sq by auto
      then show ?thesis using e tg fu by blast
    qed
  qed
  then obtain plane promo where pl: "0 \<le> plane" "plane \<le> 72"
    and e: "actionToTensor m c prob = Inr ((zeros 4672)[nat (plane * 64 + row * 8 + col) := round32 prob])"
    and tg: "tensorToAction_target c qp plane row col = Inr (toRow, toCol, promo)"
    and fu: "from_uci (SQUARE_NAMES ! from_square m @ SQUARE_NAMES ! to_square m @ promo) = Inr m"
    by blast
  have b: "nat (plane * 64 + row * 8 + col) < 4672"
    using index_bound[OF pl rc] by simp
  have "tensorToAction ((zeros 4672)[nat (plane * 64 + row * 8 + col) := round32 prob]) c qp = Inr [m]"
    unfolding tensorToAction_single[OF b pz] tensorToAction_move_unfold[OF pl(1) rc]
    by (simp add: tg co fu)
  then show ?thesis using e by simp
qed

lemma legal_shape_valid: "legal_shape c m \<Longrightarrow> valid_displacement m"
proof -
  assume ls: "legal_shape c m"
  then have ob: "on_board m" by (simp add: legal_shape_def)
  show ?thesis
  proof (cases "promotion m")
    case None
    then show ?thesis using ls by (simp add: legal_shape_def valid_displacement_def)
  next
    case (Some p)
    then have fs: "\<bar>file_step m\<bar> \<le> 1" and rs: "rank_step m = (if c = WHITE then 1 else -1)"
      using ls by (simp_all add: legal_shape_def)
    have "rank_step m \<noteq> 0" using rs by (auto split: if_splits)
    then have "from_square m \<noteq> to_square m" by (auto simp: rank_step_def)
    moreover have "file_step m = 0 \<or> \<bar>file_step m\<bar> = \<bar>rank_step m\<bar>"
      using fs rs by (auto split: if_splits)
    ultimately show ?thesis using ob by (auto simp: queen_line_def valid_displacement_def)
  qed
qed

lemma valid_displacement_distinct: "valid_displacement m \<Longrightarrow> from_square m \<noteq> to_square m"
  by (auto simp: valid_displacement_def queen_line_def knight_jump_def file_step_def)

lemma actionsToTensor_loop_step:
  assumes "valid_displacement m"
  shows "\<exists>t. actionToTensor m c p = Inr t \<and> length t = 4672 \<and>
           actionsToTensor_loop c ((m, p) # rest) (acc, qp) =
             actionsToTensor_loop c rest
               (map2 fadd acc t,
                \<lambda>k. if promotion m = Some QUEEN \<and> uci m = Inr k then Some True else qp k)"
proof -
  obtain idx where t: "actionToTensor m c p = Inr ((zeros 4672)[idx := round32 p])"
    using actionToTensor_single_entry[OF assms] by blast
  have ob: "on_board m" using assms by (simp add: valid_displacement_def)
  obtain u where u: "uci m = Inr u"
    using uci_on_board[OF ob] valid_displacement_distinct[OF assms] by blast
  have "(if promotion m = Some QUEEN then qp(u \<mapsto> True) else qp) =
          (\<lambda>k. if promotion m = Some QUEEN \<and> uci m = Inr k then Some True else qp k)"
    using u by auto
  then show ?thesis using t u by (cases "promotion m = Some QUEEN") auto
qed

lemma actionsToTensor_loop_result:
  assumes "\<forall>m \<in> set (map fst kvs). valid_displacement m" "length acc = 4672"
  shows "\<exists>acc' qp'. actionsToTensor_loop c kvs (acc, qp) = Inr (acc', qp') \<and> length acc' = 4672 \<and>
           (\<forall>k. qp' k = (if \<exists>m \<in> set (map fst kvs). promotion m = Some QUEEN \<and> uci m = Inr k
                          then Some True else qp k)) \<and>
           (\<forall>i < 4672. acc' ! i =
               foldl fadd (acc ! i)
                 (map (\<lambda>(m, p). case actionToTensor m c p of Inl e \<Rightarrow> Finite 0 | Inr t \<Rightarrow> t ! i) kvs))"
  using assms
proof (induction kvs arbitrary: acc qp)
  case Nil
  then show ?case by simp
next
  case (Cons kv kvs)
  obtain m p where kv: "kv = (m, p)" by (cases kv)
  have vm: "valid_displacement m" using Cons.prems(1) kv by simp
  obtain t where t: "actionToTensor m c p = Inr t" "length t = 4672"
    and st: "actionsToTensor_loop c ((m, p) # kvs) (acc, qp) =
             actionsToTensor_loop c kvs
               (map2 fadd acc t,
                \<lambda>k. if promotion m = Some QUEEN \<and> uci m = Inr k then Some True else qp k)"
    using actionsToTensor_loop_step[OF vm, of c p kvs acc qp] by blast
  have len: "length (map2 fadd acc t) = 4672" using t(2) Cons.prems(2) by simp
  have rest: "\<forall>m \<in> set (map fst kvs). valid_displacement m" using Cons.prems(1) by simp
  obtain acc' qp' where r: "actionsToTensor_loop c kvs
               (map2 fadd acc t,
                \<lambda>k. if promotion m = Some QUEEN \<and> uci m = Inr k then Some True else qp k) = Inr (acc', qp')"
    and l: "length acc' = 4672"
    and q: "\<forall>k. qp' k = (if \<exists>m' \<in> set (map fst kvs). promotion m' = Some QUEEN \<and> uci m' = Inr k
                          then Some True
                          else if promotion m = Some QUEEN \<and> uci m = Inr k then Some True else qp k)"
    and s: "\<forall>i < 4672. acc' ! i =
               foldl fadd ((map2 fadd acc t) ! i)
                 (map (\<lambda>(m, p). case actionToTensor m c p of Inl e \<Rightarrow> Finite 0 | Inr t \<Rightarrow> t ! i) kvs)"
    using Cons.IH[OF rest len] by blast
  have q': "\<forall>k. qp' k = (if \<exists>m' \<in> set (map fst (kv # kvs)). promotion m' = Some QUEEN \<and> uci m' = Inr k
                          then Some True else qp k)"
    using q kv by auto
  have s': "\<forall>i < 4672. acc' ! i =
               foldl fadd (acc ! i)
                 (map (\<lambda>(m, p). case actionToTensor m c p of Inl e \<Rightarrow> Finite 0 | Inr t \<Rightarrow> t ! i) (kv # kvs))"
    using s t Cons.prems(2) kv by simp
  show ?case using st r l q' s' kv by simp
qed

lemma roundtrip_in_list:
  assumes lm: "legal_move_list c (moves_of vm)"
  shows "\<exists>acc qp. actionsToTensor vm c = Inr (acc, qp) \<and>
           (\<forall>m \<in> set (moves_of vm). \<forall>prob. round32 prob \<noteq> Finite 0 \<longrightarrow>
              (\<exists>t. actionToTensor m c prob = Inr t \<and> tensorToAction t c qp = Inr [m]))"
proof -
  have sh: "\<forall>m \<in> set (moves_of vm). legal_shape c m" and pf: "promotion_forced (moves_of vm)"
    using lm by (simp_all add: legal_move_list_def)
  have vd: "\<forall>m \<in> set (map fst (weighted vm)). valid_displacement m"
    using sh legal_shape_valid by (auto simp: moves_of_def)
  obtain acc qp where r: "actionsToTensor vm c = Inr (acc, qp)"
    and q: "\<forall>k. qp k = (if \<exists>m \<in> set (moves_of vm). promotion m = Some QUEEN \<and> uci m = Inr k
                          then Some True else None)"
    using actionsToTensor_loop_result[OF vd, of "zeros (8 * 8 * 73)" c Map.empty]
    unfolding actionsToTensor_def moves_of_def by auto
  have g: "\<And>k. dict_get qp k False = (\<exists>m \<in> set (moves_of vm). promotion m = Some QUEEN \<and> uci m = Inr k)"
    using q by (simp add: dict_get_def)
  have "\<exists>t. actionToTensor m c prob = Inr t \<and> tensorToAction t c qp = Inr [m]"
    if m: "m \<in> set (moves_of vm)" and pz: "round32 prob \<noteq> Finite 0" for m prob
  proof (rule roundtrip_move[OF _ pz])
    show ls: "legal_shape c m" using sh m by simp
    have ob: "on_board m" using ls by (simp add: legal_shape_def)
    have ft: "from_square m < 64" "to_square m < 64" using ob by (simp_all add: on_board_def)
    have ne: "from_square m \<noteq> to_square m"
      using valid_displacement_distinct[OF legal_shape_valid[OF ls]] .
    show "dict_get qp (SQUARE_NAMES ! from_square m @ SQUARE_NAMES ! to_square m @ ''q'') False"
      if "promotion m = Some QUEEN"
      using uci_on_board[OF ob] that m unfolding g by auto
    show "\<not> dict_get qp (SQUARE_NAMES ! from_square m @ SQUARE_NAMES ! to_square m @ ''q'') False"
      if pn: "promotion m = None"
    proof
      assume "dict_get qp (SQUARE_NAMES ! from_square m @ SQUARE_NAMES ! to_square m @ ''q'') False"
      then obtain m' where m': "m' \<in> set (moves_of vm)" "promotion m' = Some QUEEN"
        "uci m' = Inr (SQUARE_NAMES ! from_square m @ SQUARE_NAMES ! to_square m @ ''q'')"
        unfolding g by blast
      have ls': "legal_shape c m'" using sh m'(1) by simp
      have "from_uci (SQUARE_NAMES ! from_square m @ SQUARE_NAMES ! to_square m @ ''q'') = Inr m'"
        using from_uci_uci[OF _ _ m'(3)] ls' valid_displacement_distinct[OF legal_shape_valid[OF ls']]
        by (simp add: legal_shape_def)
      moreover have "from_uci (SQUARE_NAMES ! from_square m @ SQUARE_NAMES ! to_square m @ ''q'')
                       = Inr (Move (from_square m) (to_square m) (Some QUEEN))"
        using from_uci_names[OF ft, of "''q''"] ne by (simp add: symbol_piece_def)
      ultimately have "m' = Move (from_square m) (to_square m) (Some QUEEN)" by simp
      then have "from_square m = from_square m'" "to_square m = to_square m'"
        by (simp_all add: Move_def)
      then have "promotion m \<noteq> None"
        using pf m m'(1,2) unfolding promotion_forced_def by blast
      then show False using pn by simp
    qed
  qed
  then show ?thesis using r by blast
qed

lemma promotion_moves_legal: "legal_move_list WHITE (moves_of (MoveList promotion_moves))"
  by (simp add: legal_move_list_def moves_of_def weighted_def promotion_moves_def comp_def
      legal_shape_def promotion_forced_def on_board_def queen_line_def knight_jump_def
      file_step_def rank_step_def Move_def WHITE_def)

text \<open>
  Claim C1. For the legal moves of a position, as a list or as a weighted dictionary,
  and either colour as the mover: \<open>actionsToTensor\<close> returns the queen-promotion
  dictionary of these moves, and decoding the tensor of any one of the moves with that
  dictionary returns the list holding exactly this move, promotion piece included.
  Legality is the engine's; the codec sees it as the shape of the moves
  (\<open>legal_move_list\<close>).
\<close>

theorem decode_encode_roundtrip:
  assumes "legal_move_list color (moves_of vm)" "m \<in> set (moves_of vm)"
  shows "\<exists>actionTensor queen_promotion t.
           actionsToTensor vm color = Inr (actionTensor, queen_promotion) \<and>
           actionToTensor m color 1 = Inr t \<and>
           tensorToAction t color queen_promotion = Inr [m]"
proof -
  obtain acc qp where r: "actionsToTensor vm color = Inr (acc, qp)"
    and a: "\<forall>m \<in> set (moves_of vm). \<forall>prob. round32 prob \<noteq> Finite 0 \<longrightarrow>
              (\<exists>t. actionToTensor m color prob = Inr t \<and> tensorToAction t color qp = Inr [m])"
    using roundtrip_in_list[OF assms(1)] by blast
  have "\<exists>t. actionToTensor m color 1 = Inr t \<and> tensorToAction t color qp = Inr [m]"
    using a assms(2) by (simp add: round32_1)
  then show ?thesis using r by blast
qed

theorem decode_encode_roundtrip_witness:
  "\<exists>actionTensor queen_promotion t.
      actionsToTensor (MoveList promotion_moves) WHITE = Inr (actionTensor, queen_promotion) \<and>
      actionToTensor (Move 52 60 (Some QUEEN)) WHITE 1 = Inr t \<and>
      tensorToAction t WHITE queen_promotion = Inr [Move 52 60 (Some QUEEN)]"
  using decode_encode_roundtrip[OF promotion_moves_legal, of "Move 52 60 (Some QUEEN)"]
  by (simp add: moves_of_def weighted_def promotion_moves_def comp_def)

text \<open>
  Claim C2. Over the legal moves of a position and for either colour, the encoding is
  injective: two distinct moves set entries at distinct indices below 4672.
\<close>

theorem encoding_injective:
  assumes "legal_move_list color ms"
  shows "\<forall>m \<in> set ms. \<forall>m' \<in> set ms. m \<noteq> m' \<longrightarrow>
           (\<exists>i j. i < 4672 \<and> j < 4672 \<and> i \<noteq> j \<and>
              actionToTensor m color 1 = Inr ((zeros 4672)[i := Finite 1]) \<and>
              actionToTensor m' color 1 = Inr ((zeros 4672)[j := Finite 1]))"
proof (intro ballI impI)
  fix m m' assume m: "m \<in> set ms" and m': "m' \<in> set ms" and ne: "m \<noteq> m'"
  have ms: "moves_of (MoveList ms) = ms" by (simp add: moves_of_def weighted_def comp_def)
  obtain acc qp where
    a: "\<forall>m \<in> set ms. \<forall>prob. round32 prob \<noteq> Finite 0 \<longrightarrow>
              (\<exists>t. actionToTensor m color prob = Inr t \<and> tensorToAction t color qp = Inr [m])"
    using roundtrip_in_list[of color "MoveList ms"] assms unfolding ms by blast
  have sh: "legal_shape color m" "legal_shape color m'"
    using assms m m' by (simp_all add: legal_move_list_def)
  obtain i where i: "i < 4672" "actionToTensor m color 1 = Inr ((zeros 4672)[i := Finite 1])"
    using actionToTensor_single_entry[OF legal_shape_valid[OF sh(1)], of color 1]
    by (auto simp: round32_1)
  obtain j where j: "j < 4672" "actionToTensor m' color 1 = Inr ((zeros 4672)[j := Finite 1])"
    using actionToTensor_single_entry[OF legal_shape_valid[OF sh(2)], of color 1]
    by (auto simp: round32_1)
  have "i \<noteq> j"
  proof
    assume "i = j"
    then have eq: "actionToTensor m color 1 = actionToTensor m' color 1" using i j by simp
    have one: "round32 1 \<noteq> Finite 0" by (simp add: round32_1)
    obtain t where t: "actionToTensor m color 1 = Inr t" "tensorToAction t color qp = Inr [m]"
      using a m one by blast
    obtain t' where t': "actionToTensor m' color 1 = Inr t'" "tensorToAction t' color qp = Inr [m']"
      using a m' one by blast
    have "t = t'" using t(1) t'(1) eq by simp
    then show False using t(2) t'(2) ne by simp
  qed
  then show "\<exists>i j. i < 4672 \<and> j < 4672 \<and> i \<noteq> j \<and>
              actionToTensor m color 1 = Inr ((zeros 4672)[i := Finite 1]) \<and>
              actionToTensor m' color 1 = Inr ((zeros 4672)[j := Finite 1])"
    using i j by blast
qed

theorem encoding_injective_witness:
  "\<exists>i j. i < 4672 \<and> j < 4672 \<and> i \<noteq> j \<and>
      actionToTensor (Move 52 60 (Some QUEEN)) WHITE 1 = Inr ((zeros 4672)[i := Finite 1]) \<and>
      actionToTensor (Move 52 60 (Some KNIGHT)) WHITE 1 = Inr ((zeros 4672)[j := Finite 1])"
proof -
  have l: "legal_move_list WHITE promotion_moves"
    using promotion_moves_legal by (simp add: moves_of_def weighted_def comp_def)
  have "Move 52 60 (Some QUEEN) \<in> set promotion_moves" "Move 52 60 (Some KNIGHT) \<in> set promotion_moves"
    "Move 52 60 (Some QUEEN) \<noteq> Move 52 60 (Some KNIGHT)"
    by (simp_all add: promotion_moves_def Move_def)
  then show ?thesis using encoding_injective[OF l] by blast
qed

section \<open>The mask aggregator\<close>








section \<open>Decoding an arbitrary index\<close>

lemma coordinates_wrap:
  assumes "- 8 \<le> toRow" "toRow < 8" "- 8 \<le> toCol" "toCol < 8"
  shows "coordinates c row col toRow toCol = coordinates c row col (toRow mod 8) (toCol mod 8)"
proof -
  have l: "length (lettering c) = 8" "length (numbering c) = 8"
    by (simp_all add: lettering_def numbering_def)
  have r: "py_getitem (numbering c) toRow = py_getitem (numbering c) (toRow mod 8)"
  proof (cases "toRow < 0")
    case True
    then have "toRow mod 8 = toRow + 8" using assms(1) by presburger
    then show ?thesis using py_getitem_wrap8[OF l(2) assms(1) True] by simp
  next
    case False
    then show ?thesis using assms(2) by simp
  qed
  have cl: "py_getitem (lettering c) toCol = py_getitem (lettering c) (toCol mod 8)"
  proof (cases "toCol < 0")
    case True
    then have "toCol mod 8 = toCol + 8" using assms(3) by presburger
    then show ?thesis using py_getitem_wrap8[OF l(1) assms(3) True] by simp
  next
    case False
    then show ?thesis using assms(4) by simp
  qed
  show ?thesis by (simp add: coordinates_def r cl)
qed

lemma frame_square_inj:
  assumes "0 \<le> r" "r < 8" "0 \<le> f" "f < 8" "0 \<le> r'" "r' < 8" "0 \<le> f'" "f' < 8"
    and "frame_square c r f = frame_square c r' f'"
  shows "r = r' \<and> f = f'"
proof -
  have w: "0 \<le> 7 - r" "7 - r < 8" "0 \<le> 7 - f" "7 - f < 8"
    and w': "0 \<le> 7 - r'" "7 - r' < 8" "0 \<le> 7 - f'" "7 - f' < 8" using assms by auto
  show ?thesis
  proof (cases "c = WHITE")
    case True
    then have e: "nat (8 * (7 - r) + f) = nat (8 * (7 - r') + f')"
      using assms(9) by (simp add: frame_square_def)
    have "nat f = nat f'"
      using nat_square_split(2)[OF w(1,2) assms(3,4)] nat_square_split(2)[OF w'(1,2) assms(7,8)] e
      by simp
    moreover have "nat (7 - r) = nat (7 - r')"
      using nat_square_split(3)[OF w(1,2) assms(3,4)] nat_square_split(3)[OF w'(1,2) assms(7,8)] e
      by simp
    ultimately show ?thesis using assms by auto
  next
    case False
    then have e: "nat (8 * r + (7 - f)) = nat (8 * r' + (7 - f'))"
      using assms(9) by (simp add: frame_square_def)
    have "nat (7 - f) = nat (7 - f')"
      using nat_square_split(2)[OF assms(1,2) w(3,4)] nat_square_split(2)[OF assms(5,6) w'(3,4)] e
      by simp
    moreover have "nat r = nat r'"
      using nat_square_split(3)[OF assms(1,2) w(3,4)] nat_square_split(3)[OF assms(5,6) w'(3,4)] e
      by simp
    ultimately show ?thesis using assms by auto
  qed
qed

lemma decode_finish:
  assumes rc: "0 \<le> row" "row < 8" "0 \<le> col" "col < 8"
    and lo: "- 8 \<le> toRow" "- 8 \<le> toCol"
    and mv: "(toRow - row) mod 8 \<noteq> 0 \<or> (toCol - col) mod 8 \<noteq> 0"
    and pr: "promo = [] \<and> p = None \<or> (\<exists>ch. promo = [ch] \<and> symbol_piece ch = p \<and> p \<noteq> None)"
  shows "and_then (coordinates c row col toRow toCol) (\<lambda>s. from_uci (s @ promo)) =
           (if 8 \<le> toRow \<or> 8 \<le> toCol then Inl IndexError
            else Inr (Move (frame_square c row col) (frame_square c (toRow mod 8) (toCol mod 8)) p))"
proof (cases "8 \<le> toRow \<or> 8 \<le> toCol")
  case True
  then show ?thesis using coordinates_high[OF rc True] by simp
next
  case False
  then have hi: "toRow < 8" "toCol < 8" by auto
  have w: "0 \<le> toRow mod 8" "toRow mod 8 < 8" "0 \<le> toCol mod 8" "toCol mod 8 < 8" by auto
  have co: "coordinates c row col toRow toCol =
              Inr (SQUARE_NAMES ! frame_square c row col
                   @ SQUARE_NAMES ! frame_square c (toRow mod 8) (toCol mod 8))"
    using coordinates_wrap[OF lo(1) hi(1) lo(2) hi(2)] coordinates_on_board[OF rc w] by simp
  have lt: "frame_square c row col < 64" "frame_square c (toRow mod 8) (toCol mod 8) < 64"
    using frame_square_name(1)[OF rc] frame_square_name(1)[OF w] by auto
  have ne: "frame_square c row col \<noteq> frame_square c (toRow mod 8) (toCol mod 8)"
  proof
    assume "frame_square c row col = frame_square c (toRow mod 8) (toCol mod 8)"
    then have "row = toRow mod 8 \<and> col = toCol mod 8"
      using frame_square_inj[OF rc w] by simp
    then have "(toRow - row) mod 8 = 0 \<and> (toCol - col) mod 8 = 0"
      by (metis cancel_comm_monoid_add_class.diff_cancel mod_0 mod_diff_left_eq)
    then show False using mv by simp
  qed
  show ?thesis
    using pr
  proof (elim disjE conjE exE)
    assume "promo = []" "p = None"
    then show ?thesis using False co from_uci_names[OF lt, of "[]"] ne by simp
  next
    fix ch assume "promo = [ch]" "symbol_piece ch = p" "p \<noteq> None"
    then show ?thesis using False co from_uci_names[OF lt, of "[ch]"] ne by auto
  qed
qed

lemma dir_entry:
  assumes "0 \<le> d" "d < 8"
  shows "\<exists>sx sy. py_getitem tensorToAction_dir d = Inr (sx, sy) \<and>
           tensorToAction_dir ! nat d = (sx, sy) \<and>
           (sx = -1 \<or> sx = 0 \<or> sx = 1) \<and> (sy = -1 \<or> sy = 0 \<or> sy = 1) \<and> (sx \<noteq> 0 \<or> sy \<noteq> 0)"
  using small_int_cases[OF assms]
  by (auto simp: tensorToAction_dir_def py_getitem_def)

lemma knight_entry:
  assumes "0 \<le> k" "k < 8"
  shows "\<exists>dx dy. py_getitem tensorToAction_knight_moves k = Inr (dx, dy) \<and>
           tensorToAction_knight_moves ! nat k = (dx, dy) \<and>
           (dx = -2 \<or> dx = -1 \<or> dx = 1 \<or> dx = 2) \<and> (dy = -2 \<or> dy = -1 \<or> dy = 1 \<or> dy = 2)"
  using small_int_cases[OF assms]
  by (auto simp: tensorToAction_knight_moves_def py_getitem_def)

lemma nbr_entry:
  fixes k :: int
  assumes "0 \<le> k" "k < 3"
  shows "\<exists>ch. py_getitem ''nbr'' k = Inr ch \<and> symbol_piece ch \<noteq> None"
proof -
  have "k = 0 \<or> k = 1 \<or> k = 2" using assms by arith
  then show ?thesis by (auto simp: py_getitem_def symbol_piece_def)
qed

lemma step_mod8:
  fixes s n :: int
  assumes "s = -1 \<or> s = 1" "1 \<le> n" "n \<le> 7"
  shows "(s * n) mod 8 \<noteq> 0"
  using assms by auto presburger+

lemma tensorToAction_move_outcome:
  assumes idx: "idx < 4672" and rd: "reconstructed_destination idx = (toRow, toCol)"
  shows "- 8 \<le> toRow \<and> - 8 \<le> toCol \<and>
         (\<exists>p. tensorToAction_move c qp idx =
            (if 8 \<le> toRow \<or> 8 \<le> toCol then Inl IndexError
             else Inr (Move (frame_square c (int idx mod 64 div 8) (int idx mod 64 mod 8))
                            (frame_square c (toRow mod 8) (toCol mod 8)) p)))"
proof -
  define plane where "plane = int idx div 64"
  define row where "row = int idx mod 64 div 8"
  define col where "col = int idx mod 64 mod 8"
  have pl: "0 \<le> plane" "plane < 73" using idx by (auto simp: plane_def)
  have rc: "0 \<le> row" "row < 8" "0 \<le> col" "col < 8" by (auto simp: row_def col_def)
  have body: "tensorToAction_move c qp idx =
      and_then (tensorToAction_target c qp plane row col)
           (\<lambda>(toRow, toCol, promo).
         and_then (coordinates c row col toRow toCol) (\<lambda>s. from_uci (s @ promo)))"
    by (simp add: tensorToAction_move_def Let_def plane_def row_def col_def)
  consider (queen) "plane < 56" | (knight) "56 \<le> plane" "plane < 64" | (pawn) "64 \<le> plane"
    by linarith
  then have "- 8 \<le> toRow \<and> - 8 \<le> toCol \<and>
         (\<exists>p. tensorToAction_move c qp idx =
            (if 8 \<le> toRow \<or> 8 \<le> toCol then Inl IndexError
             else Inr (Move (frame_square c row col) (frame_square c (toRow mod 8) (toCol mod 8)) p)))"
  proof cases
    case queen
    define d where "d = plane div 7"
    define squares where "squares = 1 + plane mod 7"
    have db: "0 \<le> d" "d < 8" using pl(1) queen by (auto simp: d_def)
    have sb: "1 \<le> squares" "squares \<le> 7" by (auto simp: squares_def)
    obtain sx sy where dir: "py_getitem tensorToAction_dir d = Inr (sx, sy)"
      "tensorToAction_dir ! nat d = (sx, sy)"
      and sv: "sx = -1 \<or> sx = 0 \<or> sx = 1" "sy = -1 \<or> sy = 0 \<or> sy = 1" "sx \<noteq> 0 \<or> sy \<noteq> 0"
      using dir_entry[OF db] by blast
    have dest: "toRow = row + sy * squares" "toCol = col + sx * squares"
      using rd queen dir(2)
      unfolding reconstructed_destination_def Let_def plane_def row_def col_def d_def squares_def
      by (auto split: if_splits)
    have lo: "- 8 \<le> toRow" "- 8 \<le> toCol" using dest rc sb sv(1,2) by auto
    have mv: "(toRow - row) mod 8 \<noteq> 0 \<or> (toCol - col) mod 8 \<noteq> 0"
      using sv step_mod8[OF _ sb, of sx] step_mod8[OF _ sb, of sy] unfolding dest by auto
    let ?q = "dict_get qp (SQUARE_NAMES ! frame_square c row col
                 @ SQUARE_NAMES ! frame_square c (toRow mod 8) (toCol mod 8) @ ''q'') False"
    let ?promo = "if ?q then ''q'' else ''''"
    let ?p = "if ?q then Some QUEEN else None"
    have pr: "?promo = [] \<and> ?p = None \<or> (\<exists>ch. ?promo = [ch] \<and> symbol_piece ch = ?p \<and> ?p \<noteq> None)"
      by (simp add: symbol_piece_def)
    have fin: "and_then (coordinates c row col toRow toCol) (\<lambda>s. from_uci (s @ ?promo)) =
           (if 8 \<le> toRow \<or> 8 \<le> toCol then Inl IndexError
            else Inr (Move (frame_square c row col) (frame_square c (toRow mod 8) (toCol mod 8)) ?p))"
      by (rule decode_finish[OF rc lo mv pr])
    have "tensorToAction_move c qp idx =
           (if 8 \<le> toRow \<or> 8 \<le> toCol then Inl IndexError
            else Inr (Move (frame_square c row col) (frame_square c (toRow mod 8) (toCol mod 8)) ?p))"
    proof (cases "8 \<le> toRow \<or> 8 \<le> toCol")
      case True
      have "tensorToAction_target c qp plane row col = Inl IndexError"
        using queen dir(1) coordinates_high[OF rc True, of c]
        by (simp add: tensorToAction_target_def Let_def d_def[symmetric] squares_def[symmetric]
            dest[symmetric])
      then show ?thesis using True by (simp add: body)
    next
      case False
      then have hi: "toRow < 8" "toCol < 8" by auto
      have w: "0 \<le> toRow mod 8" "toRow mod 8 < 8" "0 \<le> toCol mod 8" "toCol mod 8 < 8" by auto
      have co: "coordinates c row col toRow toCol =
              Inr (SQUARE_NAMES ! frame_square c row col
                   @ SQUARE_NAMES ! frame_square c (toRow mod 8) (toCol mod 8))"
        using coordinates_wrap[OF lo(1) hi(1) lo(2) hi(2)] coordinates_on_board[OF rc w] by simp
      have "tensorToAction_target c qp plane row col = Inr (toRow, toCol, ?promo)"
        using queen dir(1) co
        by (simp add: tensorToAction_target_def Let_def d_def[symmetric] squares_def[symmetric]
            dest[symmetric])
      then show ?thesis using fin by (simp add: body)
    qed
    then show ?thesis using lo by blast
  next
    case knight
    have kb: "0 \<le> plane - 56" "plane - 56 < 8" using knight by auto
    obtain dx dy where kn: "py_getitem tensorToAction_knight_moves (plane - 56) = Inr (dx, dy)"
      "tensorToAction_knight_moves ! nat (plane - 56) = (dx, dy)"
      and kv: "dx = -2 \<or> dx = -1 \<or> dx = 1 \<or> dx = 2" "dy = -2 \<or> dy = -1 \<or> dy = 1 \<or> dy = 2"
      using knight_entry[OF kb] by blast
    have dest: "toRow = row + dy" "toCol = col + dx"
      using rd knight kn(2)
      unfolding reconstructed_destination_def Let_def plane_def row_def col_def
      by (auto split: if_splits)
    have lo: "- 8 \<le> toRow" "- 8 \<le> toCol" using dest rc kv by auto
    have mv: "(toRow - row) mod 8 \<noteq> 0 \<or> (toCol - col) mod 8 \<noteq> 0"
      using kv(1) unfolding dest by auto
    have tg: "tensorToAction_target c qp plane row col = Inr (toRow, toCol, '''')"
      using knight kn(1) by (simp add: tensorToAction_target_def Let_def dest)
    have "and_then (coordinates c row col toRow toCol) (\<lambda>s. from_uci (s @ '''')) =
           (if 8 \<le> toRow \<or> 8 \<le> toCol then Inl IndexError
            else Inr (Move (frame_square c row col) (frame_square c (toRow mod 8) (toCol mod 8)) None))"
      by (rule decode_finish[OF rc lo mv]) simp
    then show ?thesis using lo tg by (auto simp: body)
  next
    case pawn
    have pb: "0 \<le> (plane - 64) div 3" "(plane - 64) div 3 < 3" using pawn pl(2) by auto
    obtain ch where ch: "py_getitem ''nbr'' ((plane - 64) div 3) = Inr ch" "symbol_piece ch \<noteq> None"
      using nbr_entry[OF pb] by blast
    have dest: "toRow = row - 1"
      "toCol = (if (plane - 64) mod 3 = 1 then col + 1
                else if (plane - 64) mod 3 = 2 then col - 1 else col)"
      using rd pawn
      unfolding reconstructed_destination_def Let_def plane_def row_def col_def
      by (auto split: if_splits)
    have lo: "- 8 \<le> toRow" "- 8 \<le> toCol" using dest rc by auto
    have mv: "(toRow - row) mod 8 \<noteq> 0 \<or> (toCol - col) mod 8 \<noteq> 0"
      unfolding dest by simp
    have tg: "tensorToAction_target c qp plane row col = Inr (toRow, toCol, [ch])"
      using pawn ch(1) by (simp add: tensorToAction_target_def Let_def dest)
    have "and_then (coordinates c row col toRow toCol) (\<lambda>s. from_uci (s @ [ch])) =
           (if 8 \<le> toRow \<or> 8 \<le> toCol then Inl IndexError
            else Inr (Move (frame_square c row col) (frame_square c (toRow mod 8) (toCol mod 8))
                   (symbol_piece ch)))"
      by (rule decode_finish[OF rc lo mv]) (use ch(2) in simp)
    then show ?thesis using lo tg by (auto simp: body)
  qed
  then show ?thesis unfolding row_def col_def .
qed

lemma tensorToAction_loop_error:
  assumes "\<forall>i \<in> set is. \<forall>e. tensorToAction_move c qp i = Inl e \<longrightarrow> e = IndexError"
    and "\<exists>i \<in> set is. \<exists>e. tensorToAction_move c qp i = Inl e"
  shows "tensorToAction_loop c qp is = Inl IndexError"
  using assms
proof (induction "is")
  case Nil
  then show ?case by simp
next
  case (Cons i "is")
  show ?case
  proof (cases "tensorToAction_move c qp i")
    case (Inl e)
    then have "e = IndexError" using Cons.prems(1) by simp
    then show ?thesis using Inl by simp
  next
    case (Inr mv)
    then have "\<exists>i \<in> set is. \<exists>e. tensorToAction_move c qp i = Inl e"
      using Cons.prems(2) by auto
    then have "tensorToAction_loop c qp is = Inl IndexError"
      using Cons.IH Cons.prems(1) by simp
    then show ?thesis using Inr by simp
  qed
qed

lemma tensorToAction_move_errors:
  assumes "idx < 4672" "tensorToAction_move c qp idx = Inl e"
  shows "e = IndexError"
proof -
  obtain toRow toCol where rd: "reconstructed_destination idx = (toRow, toCol)"
    by (cases "reconstructed_destination idx")
  show ?thesis
    using tensorToAction_move_outcome[OF assms(1) rd, of c qp] assms(2)
    by (auto split: if_splits)
qed

text \<open>
  Claim C4, as amended. For an index below 4672 whose reconstructed destination has a
  row or a column of 8 or more, \<open>tensorToAction\<close> fails on every vector of length 4672
  that is nonzero there; the exception is Python's IndexError from the subscription of
  \<open>lettering\<close> or \<open>numbering\<close>. A destination that is off the board only by a
  negative row or column (never below -8) raises nothing: the negative subscript counts
  from the end of the string, and the move to the square 8 rows or columns further is
  returned.
\<close>

theorem tensorToAction_off_board:
  assumes "idx < 4672" "reconstructed_destination idx = (toRow, toCol)"
  shows "(8 \<le> toRow \<or> 8 \<le> toCol \<longrightarrow>
            (\<forall>t. length t = 4672 \<and> t ! idx \<noteq> Finite 0 \<longrightarrow> tensorToAction t color qp = Inl IndexError))
       \<and> (toRow < 8 \<and> toCol < 8 \<and> (toRow < 0 \<or> toCol < 0) \<longrightarrow>
            - 8 \<le> toRow \<and> - 8 \<le> toCol \<and>
            (\<forall>w. w \<noteq> Finite 0 \<longrightarrow>
               (\<exists>p. tensorToAction ((zeros 4672)[idx := w]) color qp =
                  Inr [Move (frame_square color (int idx mod 64 div 8) (int idx mod 64 mod 8))
                            (frame_square color (if toRow < 0 then toRow + 8 else toRow)
                                                (if toCol < 0 then toCol + 8 else toCol)) p])))"
proof (intro conjI impI allI)
  fix t :: "float32 list"
  assume hi: "8 \<le> toRow \<or> 8 \<le> toCol" and t: "length t = 4672 \<and> t ! idx \<noteq> Finite 0"
  have f: "tensorToAction_move color qp idx = Inl IndexError"
    using tensorToAction_move_outcome[OF assms, of color qp] hi by auto
  have "idx \<in> set (nonzero t)" using t assms(1) by (simp add: nonzero_def)
  then have ex: "\<exists>i \<in> set (nonzero t). \<exists>e. tensorToAction_move color qp i = Inl e"
    using f by blast
  have "\<forall>i \<in> set (nonzero t). i < 4672" using t by (simp add: nonzero_def)
  then have al: "\<forall>i \<in> set (nonzero t). \<forall>e. tensorToAction_move color qp i = Inl e \<longrightarrow> e = IndexError"
    using tensorToAction_move_errors by blast
  show "tensorToAction t color qp = Inl IndexError"
    unfolding tensorToAction_def by (rule tensorToAction_loop_error[OF al ex])
next
  assume "toRow < 8 \<and> toCol < 8 \<and> (toRow < 0 \<or> toCol < 0)"
  show "- 8 \<le> toRow" "- 8 \<le> toCol"
    using tensorToAction_move_outcome[OF assms, of color qp] by auto
next
  fix w :: float32
  assume lo: "toRow < 8 \<and> toCol < 8 \<and> (toRow < 0 \<or> toCol < 0)" and w: "w \<noteq> Finite 0"
  have b: "- 8 \<le> toRow" "- 8 \<le> toCol"
    using tensorToAction_move_outcome[OF assms, of color qp] by auto
  have r: "toRow mod 8 = (if toRow < 0 then toRow + 8 else toRow)"
    using b(1) lo by (cases "toRow < 0") (presburger, simp)
  have cl: "toCol mod 8 = (if toCol < 0 then toCol + 8 else toCol)"
    using b(2) lo by (cases "toCol < 0") (presburger, simp)
  obtain p where "tensorToAction_move color qp idx =
      Inr (Move (frame_square color (int idx mod 64 div 8) (int idx mod 64 mod 8))
                (frame_square color (toRow mod 8) (toCol mod 8)) p)"
    using tensorToAction_move_outcome[OF assms, of color qp] lo by auto
  then show "\<exists>p. tensorToAction ((zeros 4672)[idx := w]) color qp =
                  Inr [Move (frame_square color (int idx mod 64 div 8) (int idx mod 64 mod 8))
                            (frame_square color (if toRow < 0 then toRow + 8 else toRow)
                                                (if toCol < 0 then toCol + 8 else toCol)) p]"
    unfolding r cl tensorToAction_single[OF assms(1) w] by auto
qed

lemma destination_0: "reconstructed_destination 0 = (-1, 0)"
  by (simp add: reconstructed_destination_def tensorToAction_dir_def)

lemma destination_455: "reconstructed_destination 455 = (-1, 8)"
  by (simp add: reconstructed_destination_def tensorToAction_dir_def)

theorem tensorToAction_off_board_witness:
  "tensorToAction ((zeros 4672)[455 := Finite 1]) WHITE Map.empty = Inl IndexError \<and>
   (\<exists>p. tensorToAction ((zeros 4672)[0 := Finite 1]) WHITE Map.empty = Inr [Move 56 0 p])"
proof -
  have "tensorToAction ((zeros 4672)[455 := Finite 1]) WHITE Map.empty = Inl IndexError"
    using tensorToAction_off_board[OF _ destination_455, of WHITE Map.empty] by simp
  moreover have "\<exists>p. tensorToAction ((zeros 4672)[0 := Finite 1]) WHITE Map.empty = Inr [Move 56 0 p]"
    using tensorToAction_off_board[OF _ destination_0, of WHITE Map.empty]
    by (simp add: frame_square_def WHITE_def)
  ultimately show ?thesis by simp
qed

text \<open>
  Claim C4 as stated fails: index 0 decoded for White has the destination row -1, and
  the result is the move from a8 to a1.
\<close>

theorem negative_destination_wraps:
  "reconstructed_destination 0 = (-1, 0) \<and>
   tensorToAction ((zeros 4672)[0 := Finite 1]) WHITE Map.empty = Inr [Move 56 0 None]"
proof -
  have "tensorToAction_move WHITE Map.empty 0 = Inr (Move 56 0 None)"
    by code_simp
  then have "tensorToAction ((zeros 4672)[0 := Finite 1]) WHITE Map.empty = Inr [Move 56 0 None]"
    by (simp add: tensorToAction_single)
  then show ?thesis using destination_0 by simp
qed

section \<open>The board encoder: shapes and history\<close>

lemma map_rev_rev: "map rev (map rev t) = t"
  by (induction t) simp_all

lemma map_map_rev_rev: "map (map rev) (map (map rev) t) = t"
  by (induction t) (simp_all add: map_rev_rev)

text \<open>
  Claim C8. The flip that \<open>get_representation\<close> applies, along dimension 1 (the ranks)
  when White is to move and along dimension 2 (the files) when Black is, is an
  involution on every tensor.
\<close>

theorem perspective_flip_involution:
  "torch_flip (torch_flip t [1]) [1] = t
   \<and> torch_flip (torch_flip t [2]) [2] = t
   \<and> get_representation eng st =
       (if turn eng (board st) then torch_flip (representation st) [1]
        else torch_flip (black_representation st) [2])"
  by (simp add: torch_flip_def map_rev_rev map_map_rev_rev get_representation_def)

lemma shape3_zeros3: "shape3 n (zeros3 n)"
  by (simp add: shape3_def zeros3_def)

lemma shape3_ones3: "shape3 n (ones3 n)"
  by (simp add: shape3_def ones3_def)

lemma shape3_bool_plane: "shape3 1 (bool_plane v)"
  by (simp add: shape3_def bool_plane_def)

lemma shape3_flag: "shape3 1 (if b then ones3 1 else zeros3 1)"
  by (simp add: shape3_ones3 shape3_zeros3)

lemma shape3_append: "shape3 a x \<Longrightarrow> shape3 b y \<Longrightarrow> shape3 (a + b) (x @ y)"
  by (auto simp: shape3_def)

lemma shape3_take: "shape3 n t \<Longrightarrow> k \<le> n \<Longrightarrow> shape3 k (take k t)"
  by (auto simp: shape3_def dest: in_set_takeD)

lemma shape3_drop: "shape3 n t \<Longrightarrow> shape3 (n - k) (drop k t)"
  by (auto simp: shape3_def dest: in_set_dropD)

lemma shape3_slice: "shape3 n t \<Longrightarrow> b \<le> n \<Longrightarrow> shape3 (b - a) (slice a b t)"
  unfolding slice_def
  by (auto simp: shape3_def dest!: in_set_takeD in_set_dropD)

lemma shape3_set3:
  assumes s: "shape3 n t"
  shows "shape3 n (set3 t ch r c v)"
proof (cases "ch < length t")
  case True
  define P where "P = (t ! ch)[r := (t ! ch ! r)[c := v]]"
  have mem: "t ! ch \<in> set t" using True by simp
  have pl: "length (t ! ch) = 8" and rows: "\<forall>x \<in> set (t ! ch). length x = 8"
    using s mem unfolding shape3_def by blast+
  have lp: "length P = 8" using pl by (simp add: P_def)
  have rp: "length y = 8" if y: "y \<in> set P" for y
  proof (cases "r < length (t ! ch)")
    case True
    then have "length ((t ! ch ! r)[c := v]) = 8" using rows by simp
    moreover have "y \<in> insert ((t ! ch ! r)[c := v]) (set (t ! ch))"
      using y set_update_subset_insert unfolding P_def by fastforce
    ultimately show ?thesis using rows by auto
  next
    case False
    then have "P = t ! ch" by (simp add: P_def list_update_beyond)
    then show ?thesis using y rows by simp
  qed
  have "\<forall>p \<in> set (t[ch := P]). length p = 8 \<and> (\<forall>r \<in> set p. length r = 8)"
  proof
    fix p assume "p \<in> set (t[ch := P])"
    then have "p \<in> insert P (set t)" using set_update_subset_insert by fastforce
    then show "length p = 8 \<and> (\<forall>r \<in> set p. length r = 8)"
      using lp rp s unfolding shape3_def by auto
  qed
  then show ?thesis using s by (simp add: shape3_def set3_def P_def)
next
  case False
  then show ?thesis using s by (simp add: set3_def list_update_beyond)
qed

lemma shape3_fold_set3:
  assumes "shape3 n t" "\<And>x t. shape3 n t \<Longrightarrow> shape3 n (f x t)"
  shows "shape3 n (fold f xs t)"
  using assms(1) by (induction xs arbitrary: t) (simp_all add: assms(2))

lemma shape3_board_to_tensor: "shape3 12 (board_to_tensor eng b)"
  unfolding board_to_tensor_def
  by (rule shape3_fold_set3[OF shape3_zeros3])
     (auto simp: Let_def shape3_set3 split: option.splits)

lemma shape3_length: "shape3 n t \<Longrightarrow> length t = n"
  by (simp add: shape3_def)

lemma zero_plane_zeros3: "k < n \<Longrightarrow> zeros3 n ! k = zero_plane"
  by (simp add: zeros3_def zero_plane_def)

lemma shape3_current:
  "shape3 14 (board_to_tensor eng b @ (if r1 then ones3 1 else zeros3 1)
                @ (if r2 then ones3 1 else zeros3 1))"
proof -
  have e: "14 = 12 + (1 + (1::nat))" by simp
  show ?thesis
    unfolding e by (intro shape3_append shape3_board_to_tensor shape3_flag)
qed

lemma shape3_meta:
  assumes "shape3 1 c0"
  shows "shape3 7 (c0 @ bool_plane n @ (if a then ones3 1 else zeros3 1)
               @ (if b then ones3 1 else zeros3 1) @ (if c then ones3 1 else zeros3 1)
               @ (if d then ones3 1 else zeros3 1) @ bool_plane h)"
proof -
  have e: "7 = 1 + (1 + (1 + (1 + (1 + (1 + (1::nat))))))" by simp
  show ?thesis
    unfolding e by (intro shape3_append assms shape3_bool_plane shape3_flag)
qed

lemma shape3_swap:
  assumes "shape3 14 cur"
  shows "shape3 14 (slice 6 12 cur @ take 6 cur @ drop 12 cur)"
  using shape3_append[OF shape3_slice[OF assms, of 12 6]
      shape3_append[OF shape3_take[OF assms, of 6] shape3_drop[OF assms, of 12]]]
  by simp

lemma move_piece_illegal:
  "\<not> is_legal eng (board st) mv \<Longrightarrow> move_piece eng mv st = (Inl ValueError, st)"
  by (simp add: move_piece_def)

lemma move_piece_legal:
  assumes "is_legal eng (board st) mv"
  shows "\<exists>cur meta meta_black.
           shape3 14 cur \<and> shape3 7 meta \<and> shape3 7 meta_black \<and>
           meta ! 1 = replicate 8 (replicate 8 (length (move_stack eng (push eng (board st) mv)) \<noteq> 0)) \<and>
           meta ! 6 = replicate 8 (replicate 8 (halfmove_clock eng (push eng (board st) mv) \<noteq> 0)) \<and>
           meta_black ! 1 = meta ! 1 \<and> meta_black ! 6 = meta ! 6 \<and>
           move_piece eng mv st =
             (Inr (),
              \<lparr>board = push eng (board st) mv,
               representation =
                 cur @ take (length (representation st) - 21) (representation st) @ meta,
               black_representation =
                 (slice 6 12 cur @ take 6 cur @ drop 12 cur)
                   @ take (length (black_representation st) - 21) (black_representation st)
                   @ meta_black\<rparr>)"
proof -
  define b where "b = push eng (board st) mv"
  define cur where "cur = board_to_tensor eng b @ (if is_repetition eng b 2 then ones3 1 else zeros3 1)
                @ (if is_repetition eng b 3 then ones3 1 else zeros3 1)"
  define wk where "wk = (if has_kingside_castling_rights eng b WHITE then ones3 1 else zeros3 1)"
  define wq where "wq = (if has_queenside_castling_rights eng b WHITE then ones3 1 else zeros3 1)"
  define bk where "bk = (if has_kingside_castling_rights eng b BLACK then ones3 1 else zeros3 1)"
  define bq where "bq = (if has_queenside_castling_rights eng b BLACK then ones3 1 else zeros3 1)"
  define meta where "meta = ones3 1 @ bool_plane (length (move_stack eng b)) @ wk @ wq @ bk @ bq
      @ bool_plane (halfmove_clock eng b)"
  define meta_black where "meta_black = zeros3 1 @ bool_plane (length (move_stack eng b)) @ bk @ bq
      @ wk @ wq @ bool_plane (halfmove_clock eng b)"
  have one: "length (ones3 1) = 1" "length (zeros3 1) = 1" "length wk = 1" "length wq = 1"
    "length bk = 1" "length bq = 1" "length (bool_plane (length (move_stack eng b))) = 1"
    by (simp_all add: ones3_def zeros3_def bool_plane_def wk_def wq_def bk_def bq_def)
  have m1: "meta ! 1 = replicate 8 (replicate 8 (length (move_stack eng b) \<noteq> 0))"
    "meta_black ! 1 = replicate 8 (replicate 8 (length (move_stack eng b) \<noteq> 0))"
    using one by (simp_all add: meta_def meta_black_def nth_append bool_plane_def)
  have m6: "meta ! 6 = replicate 8 (replicate 8 (halfmove_clock eng b \<noteq> 0))"
    "meta_black ! 6 = replicate 8 (replicate 8 (halfmove_clock eng b \<noteq> 0))"
    using one by (simp_all add: meta_def meta_black_def nth_append bool_plane_def)
  have sc: "shape3 14 cur" unfolding cur_def by (rule shape3_current)
  have sm: "shape3 7 meta" unfolding meta_def wk_def wq_def bk_def bq_def
    by (rule shape3_meta[OF shape3_ones3])
  have sb: "shape3 7 meta_black" unfolding meta_black_def wk_def wq_def bk_def bq_def
    by (rule shape3_meta[OF shape3_zeros3])
  have mp: "move_piece eng mv st =
             (Inr (),
              \<lparr>board = b,
               representation =
                 cur @ take (length (representation st) - 21) (representation st) @ meta,
               black_representation =
                 (slice 6 12 cur @ take 6 cur @ drop 12 cur)
                   @ take (length (black_representation st) - 21) (black_representation st)
                   @ meta_black\<rparr>)"
    using assms
    by (simp add: move_piece_def Let_def b_def cur_def meta_def meta_black_def wk_def wq_def
        bk_def bq_def M_def L_def)
  show ?thesis
    by (rule exI[of _ cur], rule exI[of _ meta], rule exI[of _ meta_black])
       (use mp sc sm sb m1 m6 in \<open>simp add: b_def\<close>)
qed

lemma history_shift:
  assumes c: "length cur = 14" and o: "shape3 119 old" and m: "shape3 7 meta"
    and z: "unplayed_frames_zero k old"
  shows "length (cur @ take (length old - 21) old @ meta) = 119"
    and "unplayed_frames_zero (k + 1) (cur @ take (length old - 21) old @ meta)"
proof -
  have lo: "length old = 119" using o by (simp add: shape3_def)
  have lm: "length meta = 7" using m by (simp add: shape3_def)
  show "length (cur @ take (length old - 21) old @ meta) = 119"
    using c lo lm by simp
  show "unplayed_frames_zero (k + 1) (cur @ take (length old - 21) old @ meta)"
    unfolding unplayed_frames_zero_def
  proof (intro allI impI)
    fix ch assume a: "M * (k + 1 + 1) \<le> ch \<and> ch < M * T"
    then have b: "14 * (k + 1) \<le> ch - 14" "ch - 14 < 98" "14 \<le> ch"
      by (auto simp: M_def T_def)
    have "(cur @ take (length old - 21) old @ meta) ! ch = old ! (ch - 14)"
      using b c lo by (simp add: nth_append)
    moreover have "old ! (ch - 14) = zero_plane"
      using z b unfolding unplayed_frames_zero_def by (simp add: M_def T_def)
    ultimately show "(cur @ take (length old - 21) old @ meta) ! ch = zero_plane" by simp
  qed
qed

lemma shape3_history:
  assumes "shape3 14 cur" "shape3 119 old" "shape3 7 meta"
  shows "shape3 119 (cur @ take (length old - 21) old @ meta)"
proof -
  have l: "length old - 21 = 98" using assms(2) by (simp add: shape3_def)
  have t: "shape3 98 (take 98 old)" using shape3_take[OF assms(2), of 98] by simp
  have "shape3 (14 + (98 + 7)) (cur @ take 98 old @ meta)"
    by (intro shape3_append assms(1,3) t)
  then show ?thesis unfolding l by simp
qed

lemma move_piece_invariant:
  assumes inv: "encoder_invariant k st" and mp: "move_piece eng mv st = (Inr u, st')"
  shows "encoder_invariant (k + 1) st'" "board st' = push eng (board st) mv"
    "is_legal eng (board st) mv"
proof -
  show lg: "is_legal eng (board st) mv"
    using mp by (cases "is_legal eng (board st) mv") (simp_all add: move_piece_illegal)
  obtain cur meta meta_black where sc: "shape3 14 cur" and sm: "shape3 7 meta"
    and sb: "shape3 7 meta_black"
    and e: "move_piece eng mv st =
             (Inr (),
              \<lparr>board = push eng (board st) mv,
               representation =
                 cur @ take (length (representation st) - 21) (representation st) @ meta,
               black_representation =
                 (slice 6 12 cur @ take 6 cur @ drop 12 cur)
                   @ take (length (black_representation st) - 21) (black_representation st)
                   @ meta_black\<rparr>)"
    using move_piece_legal[OF lg] by blast
  have st': "st' = \<lparr>board = push eng (board st) mv,
               representation =
                 cur @ take (length (representation st) - 21) (representation st) @ meta,
               black_representation =
                 (slice 6 12 cur @ take 6 cur @ drop 12 cur)
                   @ take (length (black_representation st) - 21) (black_representation st)
                   @ meta_black\<rparr>"
    using mp e by simp
  show "board st' = push eng (board st) mv" by (simp add: st')
  have ss: "shape3 14 (slice 6 12 cur @ take 6 cur @ drop 12 cur)" by (rule shape3_swap[OF sc])
  have i: "shape3 119 (representation st)" "shape3 119 (black_representation st)"
    "unplayed_frames_zero k (representation st)" "unplayed_frames_zero k (black_representation st)"
    using inv by (simp_all add: encoder_invariant_def)
  have "shape3 119 (representation st')" unfolding st' using shape3_history[OF sc i(1) sm] by simp
  moreover have "shape3 119 (black_representation st')"
    unfolding st' using shape3_history[OF ss i(2) sb] by simp
  moreover have "unplayed_frames_zero (k + 1) (representation st')"
    unfolding st' using history_shift(2)[OF shape3_length[OF sc] i(1) sm i(3)] by simp
  moreover have "unplayed_frames_zero (k + 1) (black_representation st')"
    unfolding st' using history_shift(2)[OF shape3_length[OF ss] i(2) sb i(4)] by simp
  ultimately show "encoder_invariant (k + 1) st'" by (simp add: encoder_invariant_def)
qed

lemma start_board_invariant: "encoder_invariant 0 (start_board eng chess960 rnd)"
proof -
  define b where "b = (if chess960 then from_chess960_pos eng rnd else Board eng)"
  define cur where "cur = board_to_tensor eng b @ zeros3 2"
  have e12: "14 = 12 + (2::nat)" by simp
  have sc: "shape3 14 cur" unfolding cur_def e12
    by (intro shape3_append shape3_board_to_tensor shape3_zeros3)
  have lc: "length cur = 14" using sc by (simp add: shape3_def)
  have e119: "119 = 14 + (98 + (1 + (1 + (4 + (1::nat)))))" by simp
  have rep: "representation (start_board eng chess960 rnd) =
          cur @ zeros3 98 @ ones3 1 @ zeros3 1 @ ones3 4 @ zeros3 1"
    by (simp add: start_board_def Let_def cur_def b_def M_def T_def)
  have brep: "black_representation (start_board eng chess960 rnd) =
          (slice 6 12 cur @ take 6 cur @ zeros3 2) @ zeros3 98 @ zeros3 1 @ zeros3 1 @ ones3 4 @ zeros3 1"
    by (simp add: start_board_def Let_def cur_def b_def M_def T_def)
  have d: "drop 12 cur = zeros3 2"
    using shape3_length[OF shape3_board_to_tensor[of eng b]] by (simp add: cur_def)
  have ss: "shape3 14 (slice 6 12 cur @ take 6 cur @ zeros3 2)"
    using shape3_swap[OF sc] d by simp
  have s1: "shape3 119 (cur @ zeros3 98 @ ones3 1 @ zeros3 1 @ ones3 4 @ zeros3 1)"
    unfolding e119 by (intro shape3_append sc shape3_zeros3 shape3_ones3)
  have s2: "shape3 119 ((slice 6 12 cur @ take 6 cur @ zeros3 2) @ zeros3 98 @ zeros3 1 @ zeros3 1
                @ ones3 4 @ zeros3 1)"
    unfolding e119 by (intro shape3_append ss shape3_zeros3 shape3_ones3)
  have z: "unplayed_frames_zero 0 (x @ zeros3 98 @ y)" if "length x = 14" for x y :: tensor3
    unfolding unplayed_frames_zero_def
  proof (intro allI impI)
    fix ch assume "M * (0 + 1) \<le> ch \<and> ch < M * T"
    then have "14 \<le> ch" "ch - 14 < 98" by (auto simp: M_def T_def)
    then have "(x @ zeros3 98 @ y) ! ch = zeros3 98 ! (ch - 14)"
      using that by (simp add: nth_append zeros3_def)
    then show "(x @ zeros3 98 @ y) ! ch = zero_plane"
      using \<open>ch - 14 < 98\<close> by (simp add: zero_plane_zeros3)
  qed
  show ?thesis
    unfolding encoder_invariant_def rep brep
    using s1 s2 z[OF lc] z[OF shape3_length[OF ss]] by simp
qed

lemma play_invariant:
  assumes "encoder_invariant k st" "play eng st mvs = (r, st')"
  shows "shape3 119 (representation st') \<and> shape3 119 (black_representation st') \<and>
         (r = Inr () \<longrightarrow> encoder_invariant (k + length mvs) st' \<and> legal_run eng (board st) mvs
             \<and> board st' = fold (\<lambda>mv b. push eng b mv) mvs (board st))"
  using assms
proof (induction mvs arbitrary: k st)
  case Nil
  then show ?case by (auto simp: encoder_invariant_def)
next
  case (Cons mv mvs)
  obtain r1 st1 where m: "move_piece eng mv st = (r1, st1)" by (cases "move_piece eng mv st")
  show ?case
  proof (cases r1)
    case (Inl e)
    then have "st1 = st"
      using m by (cases "is_legal eng (board st) mv")
                 (auto simp: move_piece_illegal dest: move_piece_legal)
    then show ?thesis using Cons.prems m Inl by (auto simp: encoder_invariant_def)
  next
    case (Inr u)
    note mi = move_piece_invariant[OF Cons.prems(1) m[unfolded Inr]]
    have p: "play eng st1 mvs = (r, st')" using Cons.prems(2) m Inr by simp
    show ?thesis using Cons.IH[OF mi(1) p] mi(2,3) by simp
  qed
qed

lemma play_legal_run:
  "legal_run eng (board st) mvs \<Longrightarrow> fst (play eng st mvs) = Inr ()"
proof (induction mvs arbitrary: st)
  case Nil
  then show ?case by simp
next
  case (Cons mv mvs)
  then have lg: "is_legal eng (board st) mv" by simp
  obtain st1 where m: "move_piece eng mv st = (Inr (), st1)" "board st1 = push eng (board st) mv"
    using move_piece_legal[OF lg] by force
  then show ?case using Cons by simp
qed

lemma board_start_board:
  "board (start_board eng chess960 rnd) = (if chess960 then from_chess960_pos eng rnd else Board eng)"
  by (simp add: start_board_def Let_def)

lemma move_piece_counters:
  assumes s: "shape3 119 (representation st)" "shape3 119 (black_representation st)"
    and mp: "move_piece eng mv st = (Inr u, st')"
  shows "representation st' ! 113 = replicate 8 (replicate 8 (length (move_stack eng (board st')) \<noteq> 0))"
    and "representation st' ! 118 = replicate 8 (replicate 8 (halfmove_clock eng (board st') \<noteq> 0))"
    and "black_representation st' ! 113 = representation st' ! 113"
    and "black_representation st' ! 118 = representation st' ! 118"
proof -
  have lg: "is_legal eng (board st) mv"
    using mp by (cases "is_legal eng (board st) mv") (simp_all add: move_piece_illegal)
  obtain cur meta meta_black where sc: "shape3 14 cur" and sm: "shape3 7 meta"
    and sb: "shape3 7 meta_black"
    and m1: "meta ! 1 = replicate 8 (replicate 8 (length (move_stack eng (push eng (board st) mv)) \<noteq> 0))"
    and m6: "meta ! 6 = replicate 8 (replicate 8 (halfmove_clock eng (push eng (board st) mv) \<noteq> 0))"
    and mb: "meta_black ! 1 = meta ! 1" "meta_black ! 6 = meta ! 6"
    and e: "move_piece eng mv st =
             (Inr (),
              \<lparr>board = push eng (board st) mv,
               representation =
                 cur @ take (length (representation st) - 21) (representation st) @ meta,
               black_representation =
                 (slice 6 12 cur @ take 6 cur @ drop 12 cur)
                   @ take (length (black_representation st) - 21) (black_representation st)
                   @ meta_black\<rparr>)"
    using move_piece_legal[OF lg] by blast
  have st': "st' = \<lparr>board = push eng (board st) mv,
               representation =
                 cur @ take (length (representation st) - 21) (representation st) @ meta,
               black_representation =
                 (slice 6 12 cur @ take 6 cur @ drop 12 cur)
                   @ take (length (black_representation st) - 21) (black_representation st)
                   @ meta_black\<rparr>"
    using mp e by simp
  have l: "length cur = 14" "length (slice 6 12 cur @ take 6 cur @ drop 12 cur) = 14"
    "length (representation st) = 119" "length (black_representation st) = 119"
    using shape3_length[OF sc] shape3_length[OF shape3_swap[OF sc]] shape3_length[OF s(1)]
      shape3_length[OF s(2)] by simp_all
  have r: "\<And>j. j < 7 \<Longrightarrow> representation st' ! (112 + j) = meta ! j"
    unfolding st' using l(1,3) by (simp add: nth_append)
  have b: "\<And>j. j < 7 \<Longrightarrow> black_representation st' ! (112 + j) = meta_black ! j"
    unfolding st' using l(2,4) by (simp add: nth_append del: append_assoc)
  have bd: "board st' = push eng (board st) mv" by (simp add: st')
  show "representation st' ! 113 = replicate 8 (replicate 8 (length (move_stack eng (board st')) \<noteq> 0))"
    using r[of 1] m1 bd by simp
  show "representation st' ! 118 = replicate 8 (replicate 8 (halfmove_clock eng (board st') \<noteq> 0))"
    using r[of 6] m6 bd by simp
  show "black_representation st' ! 113 = representation st' ! 113"
    using r[of 1] b[of 1] mb by simp
  show "black_representation st' ! 118 = representation st' ! 118"
    using r[of 6] b[of 6] mb by simp
qed

lemma play_counters:
  assumes "encoder_invariant k st" "play eng st mvs = (Inr (), st')" "mvs \<noteq> []"
  shows "representation st' ! 113 = replicate 8 (replicate 8 (length (move_stack eng (board st')) \<noteq> 0))
       \<and> representation st' ! 118 = replicate 8 (replicate 8 (halfmove_clock eng (board st') \<noteq> 0))
       \<and> black_representation st' ! 113 = representation st' ! 113
       \<and> black_representation st' ! 118 = representation st' ! 118"
  using assms
proof (induction mvs arbitrary: k st)
  case Nil
  then show ?case by simp
next
  case (Cons mv mvs)
  obtain r1 st1 where m: "move_piece eng mv st = (r1, st1)" by (cases "move_piece eng mv st")
  have r1: "r1 = Inr ()" using Cons.prems(2) m by (cases r1) auto
  note mi = move_piece_invariant[OF Cons.prems(1) m[unfolded r1]]
  have p: "play eng st1 mvs = (Inr (), st')" using Cons.prems(2) m r1 by simp
  show ?case
  proof (cases "mvs = []")
    case True
    then have "st' = st1" using p by simp
    then show ?thesis
      using move_piece_counters[OF _ _ m[unfolded r1]] Cons.prems(1)
      by (simp add: encoder_invariant_def)
  next
    case False
    then show ?thesis using Cons.IH[OF mi(1) p] by simp
  qed
qed

text \<open>
  Claim C7. Both perspective tensors have the shape \<open>[119, 8, 8]\<close>, with
  \<open>119 = M * T + L\<close>, after \<open>start_board\<close> and after any sequence of
  \<open>move_piece\<close> calls, whether the run ends in an exception or not; after
  \<open>k < T\<close> applied plies the frames of the plies not yet played are zero planes, in
  both tensors.
\<close>

theorem encoder_shape_invariant:
  assumes "play eng (start_board eng chess960 rnd) mvs = (r, st)"
  shows "M * T + L = 119 \<and>
         shape3 119 (representation st) \<and> shape3 119 (black_representation st) \<and>
         (r = Inr () \<and> length mvs < T \<longrightarrow>
            (\<forall>ch. M * (length mvs + 1) \<le> ch \<and> ch < M * T \<longrightarrow>
               representation st ! ch = zero_plane \<and> black_representation st ! ch = zero_plane))"
  using play_invariant[OF start_board_invariant assms]
  by (auto simp: encoder_invariant_def unplayed_frames_zero_def M_def T_def L_def)

lemma two_plies_legal: "legal_run knight_engine start_position [Move 6 21 None, Move 62 45 None]"
  by code_simp

theorem encoder_shape_invariant_witness:
  "fst (play knight_engine (start_board knight_engine False 0) [Move 6 21 None, Move 62 45 None]) = Inr ()
   \<and> shape3 119 (representation
        (snd (play knight_engine (start_board knight_engine False 0) [Move 6 21 None, Move 62 45 None])))
   \<and> representation
        (snd (play knight_engine (start_board knight_engine False 0) [Move 6 21 None, Move 62 45 None]))
        ! 42 = zero_plane"
proof -
  define run where
    "run = play knight_engine (start_board knight_engine False 0) [Move 6 21 None, Move 62 45 None]"
  have b: "board (start_board knight_engine False 0) = start_position"
    by (simp add: board_start_board knight_engine_def)
  have "legal_run knight_engine (board (start_board knight_engine False 0))
          [Move 6 21 None, Move 62 45 None]"
    unfolding b by (rule two_plies_legal)
  then have ok: "fst run = Inr ()"
    unfolding run_def by (rule play_legal_run)
  have e: "play knight_engine (start_board knight_engine False 0) [Move 6 21 None, Move 62 45 None]
             = (fst run, snd run)"
    by (simp add: run_def)
  show ?thesis
    using encoder_shape_invariant[OF e] ok unfolding run_def[symmetric]
    by (simp add: M_def T_def)
qed

text \<open>
  Claim C3 does not hold of the code: after every applied move the plane of the total
  ply count (channel 113) and the plane of the no-progress count (channel 118) are
  boolean planes that say only whether the count is nonzero. After the seven plies of
  \<open>knight_shuffle\<close> the half-move clock is 7 and the no-progress plane holds
  \<open>True\<close> everywhere, as it does for a clock of 1.
\<close>

theorem counter_planes_are_flags:
  assumes "play eng (start_board eng chess960 rnd) mvs = (Inr (), st)" "mvs \<noteq> []"
  shows "representation st ! 113 = replicate 8 (replicate 8 (length (move_stack eng (board st)) \<noteq> 0))
       \<and> representation st ! 118 = replicate 8 (replicate 8 (halfmove_clock eng (board st) \<noteq> 0))
       \<and> black_representation st ! 113 = representation st ! 113
       \<and> black_representation st ! 118 = representation st ! 118"
  by (rule play_counters[OF start_board_invariant assms])

lemma knight_shuffle_legal: "legal_run knight_engine start_position knight_shuffle"
  by code_simp

lemma knight_shuffle_clock:
  "clock (fold (\<lambda>mv b. knight_push b mv) knight_shuffle start_position) = 7"
  "length (played (fold (\<lambda>mv b. knight_push b mv) knight_shuffle start_position)) = 7"
  by code_simp+

theorem counter_planes_are_flags_witness:
  "fst (play knight_engine (start_board knight_engine False 0) knight_shuffle) = Inr ()
   \<and> halfmove_clock knight_engine
        (board (snd (play knight_engine (start_board knight_engine False 0) knight_shuffle))) = 7
   \<and> length (move_stack knight_engine
        (board (snd (play knight_engine (start_board knight_engine False 0) knight_shuffle)))) = 7
   \<and> representation (snd (play knight_engine (start_board knight_engine False 0) knight_shuffle)) ! 118
        = replicate 8 (replicate 8 True)
   \<and> representation (snd (play knight_engine (start_board knight_engine False 0) knight_shuffle)) ! 113
        = replicate 8 (replicate 8 True)"
proof -
  define run where "run = play knight_engine (start_board knight_engine False 0) knight_shuffle"
  have b: "board (start_board knight_engine False 0) = start_position"
    by (simp add: board_start_board knight_engine_def)
  have "legal_run knight_engine (board (start_board knight_engine False 0)) knight_shuffle"
    unfolding b by (rule knight_shuffle_legal)
  then have ok: "fst run = Inr ()"
    unfolding run_def by (rule play_legal_run)
  have e: "play knight_engine (start_board knight_engine False 0) knight_shuffle = (Inr (), snd run)"
    using ok by (simp add: run_def prod_eq_iff)
  have bd: "board (snd run) = fold (\<lambda>mv b. knight_push b mv) knight_shuffle start_position"
    using play_invariant[OF start_board_invariant e] b by (simp add: knight_engine_def)
  have ne: "knight_shuffle \<noteq> []" by (simp add: knight_shuffle_def)
  have c: "halfmove_clock knight_engine (board (snd run)) = 7"
    "length (move_stack knight_engine (board (snd run))) = 7"
    unfolding bd using knight_shuffle_clock by (simp_all add: knight_engine_def)
  show ?thesis
    using counter_planes_are_flags[OF e ne] ok c unfolding run_def[symmetric] by simp
qed

section \<open>Illegal moves\<close>

lemma d1d6_not_knight_legal: "\<not> is_legal knight_engine start_position (Move 3 43 None)"
  by (simp add: knight_engine_def knight_legal_def knight_jump_def file_step_def rank_step_def
      Move_def)

text \<open>
  Claim C5, as amended. \<open>move_piece\<close> rejects a move that is not among the legal moves
  of the position with ValueError and leaves the board and both tensors as they were.
  \<open>actionToTensor\<close> takes no position and checks no legality: it encodes every move
  with a valid displacement.
\<close>

theorem illegal_move_rejected:
  "(\<not> is_legal eng (board st) mv \<longrightarrow> move_piece eng mv st = (Inl ValueError, st))
   \<and> (valid_displacement mv \<longrightarrow> (\<exists>t. actionToTensor mv color prob = Inr t))"
  using move_piece_illegal[of eng st mv] actionToTensor_single_entry[of mv color prob]
  by blast

theorem illegal_move_rejected_witness:
  "move_piece knight_engine (Move 3 43 None) (start_board knight_engine False 0)
     = (Inl ValueError, start_board knight_engine False 0)
   \<and> (\<exists>t. actionToTensor (Move 3 43 None) WHITE 1 = Inr t)"
proof -
  have b: "board (start_board knight_engine False 0) = start_position"
    by (simp add: board_start_board knight_engine_def)
  show ?thesis
    using illegal_move_rejected[of knight_engine "start_board knight_engine False 0"
        "Move 3 43 None" WHITE 1] d1d6_not_knight_legal d1d6_valid
    unfolding b by blast
qed

text \<open>
  Claim C5 as stated fails for the encode operation: d1d6 is not among the twenty legal
  moves of the starting position, and \<open>actionToTensor\<close> encodes it.
\<close>

theorem encode_ignores_legality:
  "Move 3 43 None \<notin> set start_moves
   \<and> actionToTensor (Move 3 43 None) WHITE 1 = Inr ((zeros 4672)[315 := Finite 1])"
proof -
  have "Move 3 43 None \<notin> set start_moves"
    by (auto simp: start_moves_def Move_def)
  then show ?thesis using d1d6_tensor[of 1] by (simp add: round32_1)
qed

end
